theory Spec2Isabelle
  imports Complex_Main "HOL-Library.Word" "HOL-Library.AList"
begin

unbundle bit_operations_syntax

section \<open>JavaScript strings\<close>

text \<open>
  A JavaScript string is a sequence of UTF-16 code units; \<open>length\<close>, \<open>slice\<close>,
  \<open>startsWith\<close> and \<open>endsWith\<close> all count code units. Every non-ASCII character that
  \<open>search.ts\<close> writes in a literal lies in the Basic Multilingual Plane and is one code unit.
\<close>

type_synonym jchar = "16 word"
type_synonym jstring = "jchar list"

definition ascii :: "string \<Rightarrow> jstring" where
  "ascii s = map (\<lambda>c. of_nat (of_char c)) s"

definition LF :: jchar where "LF = 0x0A"
definition CR :: jchar where "CR = 0x0D"

text \<open>The horizontal ellipsis U+2026.\<close>
definition ellipsis :: jchar where "ellipsis = 0x2026"

text \<open>\<open>String.prototype.startsWith\<close> and \<open>endsWith\<close>.\<close>

definition startsWith :: "jstring \<Rightarrow> jstring \<Rightarrow> bool" where
  "startsWith s p = (take (length p) s = p)"

definition endsWith :: "jstring \<Rightarrow> jstring \<Rightarrow> bool" where
  "endsWith s p = (length p \<le> length s \<and> drop (length s - length p) s = p)"

text \<open>
  \<open>slice(start, end)\<close> of strings and arrays: a negative index counts from the end,
  every index is clamped to the length, and an empty range gives the empty sequence.
\<close>

definition sliceIndex :: "nat \<Rightarrow> int \<Rightarrow> nat" where
  "sliceIndex len i = (if i < 0 then nat (max (int len + i) 0) else min (nat i) len)"

definition slice :: "'a list \<Rightarrow> int \<Rightarrow> int \<Rightarrow> 'a list" where
  "slice xs s e =
     (let from = sliceIndex (length xs) s; to = sliceIndex (length xs) e
      in take (to - from) (drop from xs))"

text \<open>
  The code units that \<open>trim\<close> and \<open>trimStart\<close> remove: ECMAScript's WhiteSpace and
  LineTerminator.
\<close>

definition isWhiteSpace :: "jchar \<Rightarrow> bool" where
  "isWhiteSpace c =
     (c = 0x09 \<or> c = 0x0A \<or> c = 0x0B \<or> c = 0x0C \<or> c = 0x0D \<or> c = 0x20 \<or> c = 0xA0
      \<or> c = 0x1680 \<or> (0x2000 \<le> c \<and> c \<le> 0x200A) \<or> c = 0x2028 \<or> c = 0x2029
      \<or> c = 0x202F \<or> c = 0x205F \<or> c = 0x3000 \<or> c = 0xFEFF)"

definition trimStart :: "jstring \<Rightarrow> jstring" where
  "trimStart s = dropWhile isWhiteSpace s"

definition trimEnd :: "jstring \<Rightarrow> jstring" where
  "trimEnd s = rev (dropWhile isWhiteSpace (rev s))"

definition trim :: "jstring \<Rightarrow> jstring" where
  "trim s = trimEnd (trimStart s)"

text \<open>\<open>Array.prototype.join\<close> on an array of strings.\<close>

fun join :: "jstring \<Rightarrow> jstring list \<Rightarrow> jstring" where
  "join sep [] = []"
| "join sep [x] = x"
| "join sep (x # y # ys) = x @ sep @ join sep (y # ys)"

text \<open>A non-negative integer in a template literal: its decimal digits.\<close>

fun showNat :: "nat \<Rightarrow> jstring" where
  "showNat n = (if n < 10 then [of_nat (48 + n)] else showNat (n div 10) @ [of_nat (48 + n mod 10)])"

declare showNat.simps [simp del]

section \<open>Configuration\<close>

text \<open>
  A JavaScript number as a configuration may hold it: the real value of a finite double,
  NaN, or one of the two infinities. The comparison of line 48 and the conversion of an
  index by \<open>slice\<close> on line 50 are exact on these values.
\<close>

datatype number = Finite real | NaN | Infinity | NegInfinity

text \<open>
  The three optional numbers that \<open>search.ts\<close> adds to \<open>TeachConfig\<close>; \<open>None\<close> is the
  unset option, replaced by the default of the destructuring pattern that reads it.
  \<open>itemsPerPage\<close> and \<open>mergeThreshold\<close> are counts, natural numbers;
  \<open>maxAnswerLength\<close> is any number. \<open>stripQuestion\<close> is the configured \<open>_stripQuestion\<close>
  of \<open>utils\<close>, followed by the destructuring \<open>[question]\<close> of line 127: the first component
  of the array it returns.
\<close>

record TeachConfig =
  itemsPerPage :: "nat option"
  mergeThreshold :: "nat option"
  maxAnswerLength :: "number option"
  stripQuestion :: "jstring \<Rightarrow> jstring"

definition orDefault :: "'a option \<Rightarrow> 'a \<Rightarrow> 'a" where
  "orDefault v d = (case v of None \<Rightarrow> d | Some x \<Rightarrow> x)"

section \<open>formatAnswer\<close>

text \<open>
  \<open>source.split(/(\r?\n|\$n)/g)\<close>. \<open>matchBreak s\<close> is the length of the match of the
  regular expression at the head of \<open>s\<close>; \<open>splitBreaks\<close> walks the string, closing the
  current segment at every match and emitting the captured separator after it.
\<close>

definition matchBreak :: "jstring \<Rightarrow> nat option" where
  "matchBreak s =
     (if startsWith s [CR, LF] then Some 2
      else if startsWith s [LF] then Some 1
      else if startsWith s (ascii ''$n'') then Some 2
      else None)"

function splitBreaks :: "jstring \<Rightarrow> jstring \<Rightarrow> jstring list" where
  "splitBreaks cur [] = [cur]"
| "splitBreaks cur (c # cs) =
     (case matchBreak (c # cs) of
        Some n \<Rightarrow> cur # take n (c # cs) # splitBreaks [] (drop n (c # cs))
      | None \<Rightarrow> splitBreaks (cur @ [c]) cs)"
  by pat_completeness auto
termination
  by (relation "measure (\<lambda>(cur, s). length s)")
     (auto simp: matchBreak_def split: if_splits)

text \<open>
  \<open>source.replace(/\[CQ:image,[^\]]+\]/g, ...)\<close>, the replacement being the four code
  units \<open>[\<close>, U+56FE, U+7247, \<open>]\<close>. The expression matches at the head
  of \<open>s\<close> when \<open>s\<close> starts with \<open>[CQ:image,\<close>, then has at least one code unit other than
  \<open>]\<close>, and the run of such code units is followed by \<open>]\<close>. The greedy run takes every
  code unit up to the first \<open>]\<close>, and giving some back never helps, since the next code unit
  then is not \<open>]\<close>.
\<close>

definition rbracket :: jchar where "rbracket = 0x5D"

definition imagePlaceholder :: jstring where
  "imagePlaceholder = [0x5B, 0x56FE, 0x7247, 0x5D]"

definition matchImage :: "jstring \<Rightarrow> nat option" where
  "matchImage s =
     (if startsWith s (ascii ''[CQ:image,'') then
        (let rest = drop 10 s; body = takeWhile (\<lambda>c. c \<noteq> rbracket) rest
         in if body \<noteq> [] \<and> length body < length rest then Some (10 + length body + 1) else None)
      else None)"

function replaceImages :: "jstring \<Rightarrow> jstring" where
  "replaceImages [] = []"
| "replaceImages (c # cs) =
     (case matchImage (c # cs) of
        Some n \<Rightarrow> imagePlaceholder @ replaceImages (drop n (c # cs))
      | None \<Rightarrow> c # replaceImages cs)"
  by pat_completeness auto
termination
  by (relation "measure length")
     (auto simp: matchImage_def Let_def split: if_splits)

text \<open>
  \<open>source.length > maxAnswerLength\<close>, line 48: a comparison with NaN is false.
\<close>

definition exceeds :: "nat \<Rightarrow> number \<Rightarrow> bool" where
  "exceeds n m =
     (case m of Finite x \<Rightarrow> x < real n | NaN \<Rightarrow> False | Infinity \<Rightarrow> False
      | NegInfinity \<Rightarrow> True)"

text \<open>
  \<open>source.slice(0, maxAnswerLength)\<close>, line 50. \<open>slice\<close> converts its end index with
  ToIntegerOrInfinity: a finite number is truncated towards zero, NaN counts as 0, and
  the infinities stand for the end and the start of the string.
\<close>

definition toInteger :: "real \<Rightarrow> int" where
  "toInteger x = (if x < 0 then \<lceil>x\<rceil> else \<lfloor>x\<rfloor>)"

definition sliceTo :: "'a list \<Rightarrow> number \<Rightarrow> 'a list" where
  "sliceTo xs m =
     (case m of Finite x \<Rightarrow> slice xs 0 (toInteger x) | NaN \<Rightarrow> slice xs 0 0 | Infinity \<Rightarrow> xs
      | NegInfinity \<Rightarrow> [])"

text \<open>
  Lines 41 to 47 of \<open>formatAnswer\<close>: the cut to the first line and the image
  placeholders, returning the flag \<open>trimmed\<close> with the string.
\<close>

definition firstLine :: "jstring \<Rightarrow> bool \<times> jstring" where
  "firstLine source =
     (let lines = splitBreaks [] source;
          (trimmed, source) = (if length lines > 1 then (True, trim (hd lines)) else (False, source))
      in (trimmed, replaceImages source))"

text \<open>Lines 41 to 51: then the cut to \<open>maxAnswerLength\<close>, 100 when the option is unset.\<close>

definition formatCut :: "jstring \<Rightarrow> TeachConfig \<Rightarrow> bool \<times> jstring" where
  "formatCut source cfg =
     (let maxLen = orDefault (maxAnswerLength cfg) (Finite 100);
          (trimmed, source) = firstLine source
      in if exceeds (length source) maxLen then (True, sliceTo source maxLen)
         else (trimmed, source))"

text \<open>Lines 52 to 59: the ellipsis is appended to a string that was cut.\<close>

definition appendEllipsis :: "bool \<Rightarrow> jstring \<Rightarrow> jstring" where
  "appendEllipsis trimmed source =
     (if trimmed \<and> \<not> endsWith source [ellipsis, ellipsis] then
        (if endsWith source [ellipsis] then source @ [ellipsis] else source @ [ellipsis, ellipsis])
      else source)"

definition formatAnswer :: "jstring \<Rightarrow> TeachConfig \<Rightarrow> jstring" where
  "formatAnswer source cfg = (case formatCut source cfg of (trimmed, s) \<Rightarrow> appendEllipsis trimmed s)"


section \<open>Dialogues, tests, options\<close>

text \<open>
  A \<open>Dialogue\<close> record of the store with the transient \<open>_redirections\<close> that line 134
  attaches: \<open>None\<close> is the undefined property. \<open>flag\<close> is used with the 32-bit \<open>&\<close>.
\<close>

datatype Dialogue =
  Dialogue (id_d: nat) (original: jstring) (answer: jstring) (flag: "32 word")
    (redirections: "Dialogue list option")

record DialogueTest =
  question_t :: "jstring option"
  answer_t :: "jstring option"
  keyword_t :: "bool option"

text \<open>\<open>SearchDetails\<close>: an array of labels with two optional named slots.\<close>

record SearchDetails =
  labels :: "jstring list"
  questionType :: "jstring option"
  answerType :: "jstring option"

record Options =
  keyword_o :: "bool option"
  question_o :: "jstring option"
  answer_o :: "jstring option"
  page_o :: "nat option"
  original_o :: "jstring option"
  pipe_o :: "jstring option"
  recursive_o :: bool
  autoMerge_o :: bool

text \<open>
  What \<open>search.ts\<close> consumes from its collaborators, none of which is in this file of the
  repository:
  \<^item> \<open>getDialogues\<close>: the store lookup \<open>getDialogues(ctx, test)\<close> of \<open>utils\<close>;
  \<^item> \<open>detailShort\<close>: the \<open>details\<close> that the listeners of \<open>dialogue/detail-short\<close> leave
    behind for a dialogue, starting from the empty array;
  \<^item> \<open>searchBail\<close>: whether a listener of \<open>dialogue/search\<close> answers with a truthy value
    (the listeners are taken to leave \<open>test\<close> as it is);
  \<^item> \<open>keywordBit\<close>: the constant \<open>DialogueFlag.keyword\<close> of \<open>database\<close>;
  \<^item> \<open>triggerProbability\<close>: the text of \<open>+Math.min(total, 1).toFixed(3)\<close> for the total
    weight that \<open>getTotalWeight\<close> of \<open>receiver\<close> computes from the dialogues of the state.
\<close>

record Context =
  getDialogues :: "DialogueTest \<Rightarrow> Dialogue list"
  detailShort :: "Dialogue \<Rightarrow> SearchDetails"
  searchBail :: "DialogueTest \<Rightarrow> bool"
  keywordBit :: "32 word"
  triggerProbability :: "Dialogue list \<Rightarrow> jstring"

record TeachArgv =
  ctx :: Context
  options :: Options
  config :: TeachConfig

text \<open>
  What a call of \<open>search\<close> does to the outside: it sends a text, it returns without sending
  (a listener bailed out), or, with \<open>--pipe\<close>, it executes the piped command, whose option
  \<open>target\<close> holds the ids found. The only exception that \<open>search.ts\<close> itself can raise is
  the TypeError of a call to a \<open>push\<close> that is undefined.
\<close>

datatype Outcome = Sent jstring | Bailed | Executed (pipe: jstring) (target: jstring)

datatype error = TypeError

text \<open>Truthiness of an optional string, and an optional string inside a template literal.\<close>

definition truthy :: "jstring option \<Rightarrow> bool" where
  "truthy v = (case v of None \<Rightarrow> False | Some s \<Rightarrow> s \<noteq> [])"

definition template :: "jstring option \<Rightarrow> jstring" where
  "template v = (case v of None \<Rightarrow> ascii ''undefined'' | Some s \<Rightarrow> s)"

section \<open>Objects used as dictionaries\<close>

text \<open>
  \<open>questions\<close> and \<open>idMap\<close> are object literals, so they inherit from \<open>Object.prototype\<close>.
  An object is modelled by its own properties in insertion order; the inherited property
  names are those of the standard \<open>Object.prototype\<close>.
\<close>

definition objectPrototypeKeys :: "jstring list" where
  "objectPrototypeKeys = map ascii
     [''constructor'', ''__defineGetter__'', ''__defineSetter__'', ''hasOwnProperty'',
      ''__lookupGetter__'', ''__lookupSetter__'', ''isPrototypeOf'', ''propertyIsEnumerable'',
      ''toString'', ''valueOf'', ''__proto__'', ''toLocaleString'']"

text \<open>The operator \<open>in\<close>: own and inherited properties.\<close>

definition hasProperty :: "jstring \<Rightarrow> (jstring \<times> 'a) list \<Rightarrow> bool" where
  "hasProperty k obj = (k \<in> fst ` set obj \<or> k \<in> set objectPrototypeKeys)"

text \<open>
  \<open>Object.keys\<close> lists the own properties whose name is an array index (the canonical
  decimal of a number below \<open>2^32 - 1\<close>) first, in ascending numeric order, then the others
  in insertion order. \<open>ownEntries\<close> is that order, on the properties with their values.
\<close>

definition isDigit :: "jchar \<Rightarrow> bool" where
  "isDigit c = (0x30 \<le> c \<and> c \<le> 0x39)"

definition parseNat :: "jstring \<Rightarrow> nat" where
  "parseNat k = foldl (\<lambda>n c. 10 * n + (unat c - 48)) 0 k"

definition isArrayIndex :: "jstring \<Rightarrow> bool" where
  "isArrayIndex k =
     (case k of
        [] \<Rightarrow> False
      | c # cs \<Rightarrow> list_all isDigit k \<and> (c \<noteq> 0x30 \<or> cs = []) \<and> length k \<le> 10
                 \<and> parseNat k < 4294967295)"

definition ownEntries :: "(jstring \<times> 'a) list \<Rightarrow> (jstring \<times> 'a) list" where
  "ownEntries obj =
     sort_key (\<lambda>p. parseNat (fst p)) (filter (\<lambda>p. isArrayIndex (fst p)) obj)
     @ filter (\<lambda>p. \<not> isArrayIndex (fst p)) obj"

section \<open>Details and prefixes\<close>

definition keywordLabel :: jstring where
  "keywordLabel = [0x5173, 0x952E, 0x8BCD]"

definition questionLabel :: jstring where
  "questionLabel = [0x95EE, 0x9898]"

definition answerLabel :: jstring where
  "answerLabel = [0x56DE, 0x7B54]"

definition getDetails :: "TeachArgv \<Rightarrow> Dialogue \<Rightarrow> SearchDetails" where
  "getDetails argv dialogue =
     (let details = detailShort (ctx argv) dialogue
      in if flag dialogue AND keywordBit (ctx argv) \<noteq> 0
         then details\<lparr>questionType := Some keywordLabel\<rparr> else details)"

definition formatDetails :: "Dialogue \<Rightarrow> SearchDetails \<Rightarrow> jstring" where
  "formatDetails dialogue details =
     showNat (id_d dialogue) @ ascii ''. ''
     @ (if labels details \<noteq> [] then ascii ''['' @ join (ascii '', '') (labels details) @ ascii ''] ''
        else [])"

definition formatPrefix :: "TeachArgv \<Rightarrow> Dialogue \<Rightarrow> bool \<Rightarrow> jstring" where
  "formatPrefix argv dialogue showAnswerType =
     (let details = getDetails argv dialogue;
          result = formatDetails dialogue details;
          result = (if truthy (questionType details)
                    then result @ ascii ''['' @ template (questionType details) @ ascii ''] ''
                    else result);
          result = (if showAnswerType \<and> truthy (answerType details)
                    then result @ ascii ''['' @ template (answerType details) @ ascii ''] ''
                    else result)
      in result)"

section \<open>Listings\<close>

text \<open>
  \<open>formatAnswers\<close> maps \<open>formatAnswersEntry\<close>, the body of its arrow function, over the
  dialogues. An array of redirections, even an empty one, is truthy.
\<close>

fun formatAnswers :: "TeachArgv \<Rightarrow> Dialogue list \<Rightarrow> nat \<Rightarrow> jstring list"
  and formatAnswersEntry :: "TeachArgv \<Rightarrow> Dialogue \<Rightarrow> nat \<Rightarrow> jstring" where
  "formatAnswers argv [] padding = []"
| "formatAnswers argv (d # ds) padding =
     formatAnswersEntry argv d padding # formatAnswers argv ds padding"
| "formatAnswersEntry argv (Dialogue i q a f r) padding =
     (let dialogue = Dialogue i q a f r;
          output = concat (replicate padding (ascii ''=> '')) @ formatPrefix argv dialogue True
                   @ formatAnswer a (config argv)
      in case r of
           None \<Rightarrow> output
         | Some rs \<Rightarrow> join [LF] (output # formatAnswers argv rs (padding + 1)))"

definition formatQuestionAnswers :: "TeachArgv \<Rightarrow> Dialogue list \<Rightarrow> jstring list" where
  "formatQuestionAnswers argv dialogues =
     map (\<lambda>dialogue.
       let details = getDetails argv dialogue;
           qType = orDefault (questionType details) questionLabel;
           aType = orDefault (answerType details) answerLabel;
           output = formatDetails dialogue details @ qType @ [0xFF1A] @ original dialogue
                    @ [0xFF0C] @ aType @ [0xFF1A] @ formatAnswer (answer dialogue) (config argv)
       in case redirections dialogue of
            None \<Rightarrow> output
          | Some rs \<Rightarrow> join [LF] (output # formatAnswers argv rs 1)) dialogues"

section \<open>Redirections\<close>

text \<open>
  The object \<open>questions\<close> of line 119 with the log of the store lookups that
  \<open>getRedirections\<close> has issued. Line 129 stores the array that the lookup returned; the
  program reads that property only on lines 134 and 135, right after the assignment, and
  later consults the property names alone.

  Line 134 writes \<open>_redirections\<close> into the dialogue object, and the loop of the inner
  call writes into the objects of the very array that line 134 attached. Every lookup
  is taken to return objects of its own, so each object is written at most once, and
  the function below returns the dialogues as the listing finds them afterwards: each
  with the resolved dialogues of its target.
\<close>

record Resolver =
  questions :: "(jstring \<times> Dialogue list) list"
  lookups :: "DialogueTest list"

definition redirectPrefix :: jstring where
  "redirectPrefix = ascii ''${dialogue ''"

text \<open>Line 127.\<close>

definition redirectTarget :: "TeachConfig \<Rightarrow> jstring \<Rightarrow> jstring" where
  "redirectTarget cfg a = stripQuestion cfg (trimStart (slice a 11 (- 1)))"

text \<open>Lines 129 to 133: the test of the lookup for a redirection.\<close>

definition childTest :: "DialogueTest \<Rightarrow> jstring \<Rightarrow> DialogueTest" where
  "childTest test question = test\<lparr>keyword_t := Some False, question_t := Some question\<rparr>"

definition setRedirections :: "Dialogue \<Rightarrow> Dialogue list \<Rightarrow> Dialogue" where
  "setRedirections dialogue value =
     Dialogue (id_d dialogue) (original dialogue) (answer dialogue) (flag dialogue) (Some value)"

text \<open>
  \<open>getRedirections\<close>, lines 123 to 137, returns the dialogues with their redirections
  attached and the resolver state. The function calls itself inside its loop, on what the
  store returns, so nothing in its text bounds the depth of the calls: \<open>fuel\<close> is the depth
  still allowed, and \<open>None\<close> the result of a call that would go deeper.
\<close>

fun getRedirections ::
  "TeachArgv \<Rightarrow> DialogueTest \<Rightarrow> nat \<Rightarrow> Dialogue list \<Rightarrow> Resolver \<Rightarrow> (Dialogue list \<times> Resolver) option"
  where
  "getRedirections argv test fuel [] st = Some ([], st)"
| "getRedirections argv test fuel (dialogue # rest) st =
     (if \<not> startsWith (answer dialogue) redirectPrefix then
        (case getRedirections argv test fuel rest st of
           None \<Rightarrow> None
         | Some (ds, st') \<Rightarrow> Some (dialogue # ds, st'))
      else
        (let question = redirectTarget (config argv) (answer dialogue)
         in if hasProperty question (questions st) then
              (case getRedirections argv test fuel rest st of
                 None \<Rightarrow> None
               | Some (ds, st') \<Rightarrow> Some (dialogue # ds, st'))
            else
              (case fuel of
                 0 \<Rightarrow> None
               | Suc fuel' \<Rightarrow>
                   (let fetched = getDialogues (ctx argv) (childTest test question);
                        st1 = st\<lparr>questions := questions st @ [(question, fetched)],
                                 lookups := lookups st @ [childTest test question]\<rparr>
                    in case getRedirections argv test fuel' fetched st1 of
                         None \<Rightarrow> None
                       | Some (children, st2) \<Rightarrow>
                           (case getRedirections argv test fuel rest st2 of
                              None \<Rightarrow> None
                            | Some (ds, st3) \<Rightarrow>
                                Some (setRedirections dialogue children # ds, st3))))))"

text \<open>Lines 118 to 138.\<close>

definition resolve :: "TeachArgv \<Rightarrow> DialogueTest \<Rightarrow> nat \<Rightarrow> Dialogue list \<Rightarrow> (Dialogue list \<times> Resolver) option" where
  "resolve argv test fuel dialogues =
     getRedirections argv test fuel dialogues
       \<lparr>questions = [(template (question_t test), dialogues)], lookups = []\<rparr>"

section \<open>sendResult\<close>

text \<open>
  \<open>Math.ceil(output.length / itemsPerPage)\<close> in a template literal. Line 145 is reached with
  more lines than \<open>itemsPerPage\<close>, so a page size of zero divides a positive number and
  gives \<open>Infinity\<close>.
\<close>

definition pageCount :: "nat \<Rightarrow> nat \<Rightarrow> nat" where
  "pageCount len perPage = (len + perPage - 1) div perPage"

definition pageCountText :: "nat \<Rightarrow> nat \<Rightarrow> jstring" where
  "pageCountText len perPage =
     (if perPage = 0 then ascii ''Infinity'' else showNat (pageCount len perPage))"

definition pageHeader :: "jstring \<Rightarrow> nat \<Rightarrow> jstring \<Rightarrow> jstring" where
  "pageHeader title page count =
     title @ [0xFF08, 0x7B2C] @ ascii '' '' @ showNat page @ ascii ''/'' @ count @ ascii '' ''
     @ [0x9875, 0xFF09, 0xFF1A]"

definition pageHint :: jstring where
  "pageHint =
     [0x53EF, 0x4EE5, 0x4F7F, 0x7528] @ ascii '' --page '' @ [0x6216, 0x5728] @ ascii '' ## ''
     @ [0x4E4B, 0x540E, 0x52A0, 0x4E0A, 0x9875, 0x7801, 0x4EE5, 0x8C03, 0x6574, 0x8F93, 0x51FA,
        0x7684, 0x6761, 0x76EE, 0x9875, 0x6570, 0x3002]"

text \<open>Line 146, the lines of the page.\<close>

definition pageBody :: "nat \<Rightarrow> nat \<Rightarrow> jstring list \<Rightarrow> jstring list" where
  "pageBody perPage page output =
     slice output ((int page - 1) * int perPage) (int page * int perPage)"

text \<open>
  \<open>sendResult\<close>, lines 140 to 152, closes over \<open>itemsPerPage\<close> and \<open>page\<close>.
  \<open>sendResultLines\<close> is the array that line 151 joins.
\<close>

definition sendResultLines :: "nat \<Rightarrow> nat \<Rightarrow> jstring \<Rightarrow> jstring list \<Rightarrow> jstring option \<Rightarrow> jstring list" where
  "sendResultLines perPage page title output suffix =
     (if length output \<le> perPage then
        (title @ [0xFF1A]) # output @ (if truthy suffix then [template suffix] else [])
      else
        pageHeader title page (pageCountText (length output) perPage)
        # pageBody perPage page output
        @ (if truthy suffix then [template suffix] else [])
        @ [pageHint])"

definition sendResult :: "nat \<Rightarrow> nat \<Rightarrow> jstring \<Rightarrow> jstring list \<Rightarrow> jstring option \<Rightarrow> Outcome" where
  "sendResult perPage page title output suffix =
     Sent (join [LF] (sendResultLines perPage page title output suffix))"

section \<open>Merging\<close>

text \<open>
  Lines 184 to 189. \<open>idMap[key]\<close> of a name that \<open>idMap\<close> inherits is a function or
  \<open>Object.prototype\<close> itself: it is truthy, so no array is stored, and it has no \<open>push\<close>.
\<close>

fun collectIds :: "bool \<Rightarrow> Dialogue list \<Rightarrow> (jstring \<times> nat list) list \<Rightarrow> error + (jstring \<times> nat list) list" where
  "collectIds byQuestion [] idMap = Inr idMap"
| "collectIds byQuestion (dialogue # rest) idMap =
     (let key = (if byQuestion then original dialogue else answer dialogue)
      in case map_of idMap key of
           Some ids \<Rightarrow> collectIds byQuestion rest (AList.update key (ids @ [id_d dialogue]) idMap)
         | None \<Rightarrow>
             if key \<in> set objectPrototypeKeys then Inl TypeError
             else collectIds byQuestion rest (AList.update key [id_d dialogue] idMap))"

text \<open>Lines 190 to 195, the line of one key.\<close>

definition mergeLine :: "bool \<Rightarrow> nat \<Rightarrow> jstring \<Rightarrow> nat list \<Rightarrow> jstring" where
  "mergeLine byQuestion threshold key ids =
     (if length ids \<le> threshold then
        key @ ascii '' (#'' @ join (ascii '', #'') (map showNat ids) @ ascii '')''
      else
        key @ ascii '' ('' @ [0x5171] @ ascii '' '' @ showNat (length ids) @ ascii '' '' @ [0x4E2A]
        @ (if byQuestion then answerLabel else questionLabel) @ ascii '')'')"

definition mergeDialogues :: "bool \<Rightarrow> nat \<Rightarrow> Dialogue list \<Rightarrow> error + jstring list" where
  "mergeDialogues byQuestion threshold dialogues =
     (case collectIds byQuestion dialogues [] of
        Inl e \<Rightarrow> Inl e
      | Inr idMap \<Rightarrow> Inr (map (\<lambda>(key, ids). mergeLine byQuestion threshold key ids) (ownEntries idMap)))"

text \<open>Lines 180 to 196.\<close>

definition keywordOutput :: "TeachArgv \<Rightarrow> Dialogue list \<Rightarrow> error + jstring list" where
  "keywordOutput argv dialogues =
     (let question = question_o (options argv); a = answer_o (options argv)
      in if \<not> autoMerge_o (options argv) \<or> (truthy question \<and> truthy a)
         then Inr (formatQuestionAnswers argv dialogues)
         else mergeDialogues (truthy question) (orDefault (mergeThreshold (config argv)) 5) dialogues)"

section \<open>search\<close>

text \<open>The texts of lines 111 and 155 to 206.\<close>

definition msgPipeEmpty :: jstring where
  "msgPipeEmpty = [0x6CA1, 0x6709, 0x641C, 0x7D22, 0x5230, 0x4EFB, 0x4F55, 0x95EE, 0x7B54, 0x3002]"

definition msgAllEmpty :: jstring where
  "msgAllEmpty =
     [0x6CA1, 0x6709, 0x641C, 0x7D22, 0x5230, 0x4EFB, 0x4F55, 0x56DE, 0x7B54, 0xFF0C, 0x5C1D,
      0x8BD5, 0x5207, 0x6362, 0x5230, 0x5176, 0x4ED6, 0x73AF, 0x5883, 0x3002]"

definition titleAll :: jstring where
  "titleAll = [0x5168, 0x90E8, 0x95EE, 0x7B54, 0x5982, 0x4E0B]"

definition msgAnswerEmpty :: "jstring option \<Rightarrow> jstring" where
  "msgAnswerEmpty a =
     [0x6CA1, 0x6709, 0x641C, 0x7D22, 0x5230, 0x56DE, 0x7B54, 0x201C] @ template a
     @ [0x201D, 0xFF0C, 0x8BF7, 0x5C1D, 0x8BD5, 0x4F7F, 0x7528, 0x5173, 0x952E, 0x8BCD, 0x5339,
        0x914D, 0x3002]"

definition titleAnswer :: "jstring option \<Rightarrow> jstring" where
  "titleAnswer a =
     [0x56DE, 0x7B54, 0x201C] @ template a @ [0x201D, 0x7684, 0x95EE, 0x9898, 0x5982, 0x4E0B]"

definition msgQuestionEmpty :: "jstring option \<Rightarrow> jstring" where
  "msgQuestionEmpty orig =
     [0x6CA1, 0x6709, 0x641C, 0x7D22, 0x5230, 0x95EE, 0x9898, 0x201C] @ template orig
     @ [0x201D, 0xFF0C, 0x8BF7, 0x5C1D, 0x8BD5, 0x4F7F, 0x7528, 0x5173, 0x952E, 0x8BCD, 0x5339,
        0x914D, 0x3002]"

definition titleQuestion :: "jstring option \<Rightarrow> jstring" where
  "titleQuestion orig =
     [0x95EE, 0x9898, 0x201C] @ template orig @ [0x201D, 0x7684, 0x56DE, 0x7B54, 0x5982, 0x4E0B]"

definition probabilityLabel :: jstring where
  "probabilityLabel = [0x5B9E, 0x9645, 0x89E6, 0x53D1, 0x6982, 0x7387, 0xFF1A]"

definition msgBothEmpty :: "jstring option \<Rightarrow> jstring option \<Rightarrow> jstring" where
  "msgBothEmpty orig a =
     [0x6CA1, 0x6709, 0x641C, 0x7D22, 0x5230, 0x95EE, 0x7B54, 0x201C] @ template orig
     @ [0x201D, 0x201C] @ template a
     @ [0x201D, 0xFF0C, 0x8BF7, 0x5C1D, 0x8BD5, 0x4F7F, 0x7528, 0x5173, 0x952E, 0x8BCD, 0x5339,
        0x914D, 0x3002]"

definition titleBoth :: "jstring option \<Rightarrow> jstring option \<Rightarrow> jstring" where
  "titleBoth orig a =
     [0x201C] @ template orig @ [0x201D, 0x201C] @ template a
     @ [0x201D, 0x5339, 0x914D, 0x7684, 0x56DE, 0x7B54, 0x5982, 0x4E0B]"

definition msgAnswerKeywordEmpty :: "jstring option \<Rightarrow> jstring" where
  "msgAnswerKeywordEmpty a =
     [0x6CA1, 0x6709, 0x641C, 0x7D22, 0x5230, 0x542B, 0x6709, 0x5173, 0x952E, 0x8BCD, 0x201C]
     @ template a @ [0x201D, 0x7684, 0x56DE, 0x7B54, 0x3002]"

definition titleAnswerKeyword :: "jstring option \<Rightarrow> jstring" where
  "titleAnswerKeyword a =
     [0x56DE, 0x7B54, 0x5173, 0x952E, 0x8BCD, 0x201C] @ template a
     @ [0x201D, 0x7684, 0x641C, 0x7D22, 0x7ED3, 0x679C, 0x5982, 0x4E0B]"

definition msgQuestionKeywordEmpty :: "jstring option \<Rightarrow> jstring" where
  "msgQuestionKeywordEmpty orig =
     [0x6CA1, 0x6709, 0x641C, 0x7D22, 0x5230, 0x542B, 0x6709, 0x5173, 0x952E, 0x8BCD, 0x201C]
     @ template orig @ [0x201D, 0x7684, 0x95EE, 0x9898, 0x3002]"

definition titleQuestionKeyword :: "jstring option \<Rightarrow> jstring" where
  "titleQuestionKeyword orig =
     [0x95EE, 0x9898, 0x5173, 0x952E, 0x8BCD, 0x201C] @ template orig
     @ [0x201D, 0x7684, 0x641C, 0x7D22, 0x7ED3, 0x679C, 0x5982, 0x4E0B]"

definition msgBothKeywordEmpty :: "jstring option \<Rightarrow> jstring option \<Rightarrow> jstring" where
  "msgBothKeywordEmpty orig a =
     [0x6CA1, 0x6709, 0x641C, 0x7D22, 0x5230, 0x542B, 0x6709, 0x5173, 0x952E, 0x8BCD, 0x201C]
     @ template orig @ [0x201D, 0x201C] @ template a @ [0x201D, 0x7684, 0x95EE, 0x7B54, 0x3002]"

definition titleBothKeyword :: "jstring option \<Rightarrow> jstring option \<Rightarrow> jstring" where
  "titleBothKeyword orig a =
     [0x95EE, 0x7B54, 0x5173, 0x952E, 0x8BCD, 0x201C] @ template orig @ [0x201D, 0x201C]
     @ template a @ [0x201D, 0x7684, 0x641C, 0x7D22, 0x7ED3, 0x679C, 0x5982, 0x4E0B]"

text \<open>
  Lines 154 to 207: what \<open>search\<close> answers once the dialogues are fetched and, with
  \<open>--recursive\<close>, resolved. Line 167 to 170 write the session state, which this file never
  reads again.
\<close>

definition respond :: "TeachArgv \<Rightarrow> Dialogue list \<Rightarrow> error + Outcome" where
  "respond argv dialogues =
     (let question = question_o (options argv);
          a = answer_o (options argv);
          orig = original_o (options argv);
          page = orDefault (page_o (options argv)) 1;
          perPage = orDefault (itemsPerPage (config argv)) 20
      in if \<not> truthy question \<and> \<not> truthy a then
           (if dialogues = [] then Inr (Sent msgAllEmpty)
            else Inr (sendResult perPage page titleAll (formatQuestionAnswers argv dialogues) None))
         else if keyword_o (options argv) \<noteq> Some True then
           (if \<not> truthy question then
              (if dialogues = [] then Inr (Sent (msgAnswerEmpty a))
               else Inr (sendResult perPage page (titleAnswer a)
                          (map (\<lambda>d. formatPrefix argv d False @ original d) dialogues) None))
            else if \<not> truthy a then
              (if dialogues = [] then Inr (Sent (msgQuestionEmpty orig))
               else Inr (sendResult perPage page (titleQuestion orig)
                          (formatAnswers argv dialogues 0)
                          (Some (if length dialogues > 1
                                 then probabilityLabel @ triggerProbability (ctx argv) dialogues
                                 else []))))
            else
              (if dialogues = [] then Inr (Sent (msgBothEmpty orig a))
               else Inr (sendResult perPage page (titleBoth orig a)
                          [join (ascii '', '') (map (\<lambda>d. showNat (id_d d)) dialogues)] None)))
         else
           (case keywordOutput argv dialogues of
              Inl e \<Rightarrow> Inl e
            | Inr output \<Rightarrow>
                if \<not> truthy question then
                  (if dialogues = [] then Inr (Sent (msgAnswerKeywordEmpty a))
                   else Inr (sendResult perPage page (titleAnswerKeyword a) output None))
                else if \<not> truthy a then
                  (if dialogues = [] then Inr (Sent (msgQuestionKeywordEmpty orig))
                   else Inr (sendResult perPage page (titleQuestionKeyword orig) output None))
                else
                  (if dialogues = [] then Inr (Sent (msgBothKeywordEmpty orig a))
                   else Inr (sendResult perPage page (titleBothKeyword orig a) output None))))"

text \<open>Line 106.\<close>

definition searchTest :: "TeachArgv \<Rightarrow> DialogueTest" where
  "searchTest argv =
     \<lparr>question_t = question_o (options argv), answer_t = answer_o (options argv),
      keyword_t = keyword_o (options argv)\<rparr>"

text \<open>
  \<open>search\<close>, lines 101 to 208. The result is \<open>None\<close> when the resolution of the
  redirections needs calls deeper than \<open>fuel\<close>.
\<close>

definition search :: "nat \<Rightarrow> TeachArgv \<Rightarrow> (error + Outcome) option" where
  "search fuel argv =
     (let test = searchTest argv
      in if searchBail (ctx argv) test then Some (Inr Bailed)
         else
           (let dialogues = getDialogues (ctx argv) test
            in if truthy (pipe_o (options argv)) then
                 (if dialogues = [] then Some (Inr (Sent msgPipeEmpty))
                  else Some (Inr (Executed (template (pipe_o (options argv)))
                                    (join (ascii '','') (map (\<lambda>d. showNat (id_d d)) dialogues)))))
               else if recursive_o (options argv) then
                 (case resolve argv test fuel dialogues of
                    None \<Rightarrow> None
                  | Some (resolved, st) \<Rightarrow> Some (respond argv resolved))
               else Some (respond argv dialogues)))"

section \<open>Vocabulary of the properties\<close>

text \<open>\<open>String.prototype.includes\<close>: the text \<open>p\<close> occurs somewhere in \<open>s\<close>.\<close>

fun includesStr :: "jstring \<Rightarrow> jstring \<Rightarrow> bool" where
  "includesStr [] p = (p = [])"
| "includesStr (c # cs) p = (startsWith (c # cs) p \<or> includesStr cs p)"

text \<open>The image expression of line 47 matches somewhere in the string.\<close>

fun hasImageMarker :: "jstring \<Rightarrow> bool" where
  "hasImageMarker [] = False"
| "hasImageMarker (c # cs) = (matchImage (c # cs) \<noteq> None \<or> hasImageMarker cs)"

text \<open>
  \<open>n <= m + 2\<close> for a length \<open>n\<close> and a number \<open>m\<close>, and the numbers that are neither
  negative nor NaN.
\<close>

definition atMostPlus2 :: "nat \<Rightarrow> number \<Rightarrow> bool" where
  "atMostPlus2 n m =
     (case m of Finite x \<Rightarrow> real n \<le> x + 2 | NaN \<Rightarrow> False | Infinity \<Rightarrow> True
      | NegInfinity \<Rightarrow> False)"

definition nonNegative :: "number \<Rightarrow> bool" where
  "nonNegative m =
     (case m of Finite x \<Rightarrow> 0 \<le> x | NaN \<Rightarrow> False | Infinity \<Rightarrow> True | NegInfinity \<Rightarrow> False)"

text \<open>A configuration with a given \<open>maxAnswerLength\<close> and nothing else set.\<close>

definition configMax :: "number \<Rightarrow> TeachConfig" where
  "configMax m = \<lparr>itemsPerPage = None, mergeThreshold = None, maxAnswerLength = Some m,
                   stripQuestion = (\<lambda>q. q)\<rparr>"

text \<open>The number of ellipsis characters that end a string.\<close>

definition trailingEllipses :: "jstring \<Rightarrow> nat" where
  "trailingEllipses s = length (takeWhile (\<lambda>c. c = ellipsis) (rev s))"

text \<open>
  The property names for which \<open>in\<close> holds on \<open>questions\<close>, and the question texts that
  the redirecting dialogues of a list point to.
\<close>

definition knownKeys :: "Resolver \<Rightarrow> jstring set" where
  "knownKeys st = fst ` set (questions st) \<union> set objectPrototypeKeys"

definition redirectTargets :: "TeachConfig \<Rightarrow> Dialogue list \<Rightarrow> jstring set" where
  "redirectTargets cfg ds =
     (\<lambda>d. redirectTarget cfg (answer d)) ` {d \<in> set ds. startsWith (answer d) redirectPrefix}"

text \<open>
  \<open>grows test st st'\<close>: the state \<open>st'\<close> is \<open>st\<close> with new questions added at the end, each
  under a name that \<open>in\<close> did not find before and under one name only, and with one lookup
  logged for each of them, in the same order.
\<close>

definition grows :: "DialogueTest \<Rightarrow> Resolver \<Rightarrow> Resolver \<Rightarrow> bool" where
  "grows test st st' =
     (\<exists>new. questions st' = questions st @ new
        \<and> lookups st' = lookups st @ map (\<lambda>p. childTest test (fst p)) new
        \<and> distinct (map fst new)
        \<and> fst ` set new \<inter> knownKeys st = {})"



section \<open>A store with a cycle\<close>

text \<open>
  A store whose lookup matches the question exactly, holding two dialogues that redirect
  to each other, and two dialogues whose answers are near misses of the redirect
  expression.
\<close>

definition plainConfig :: TeachConfig where
  "plainConfig = \<lparr>itemsPerPage = None, mergeThreshold = None, maxAnswerLength = None,
                   stripQuestion = (\<lambda>q. q)\<rparr>"

definition exactStore :: "Dialogue list \<Rightarrow> Context" where
  "exactStore store =
     \<lparr>getDialogues = (\<lambda>t. filter (\<lambda>d. question_t t = Some (original d)) store),
      detailShort = (\<lambda>d. \<lparr>labels = [], questionType = None, answerType = None\<rparr>),
      searchBail = (\<lambda>t. False),
      keywordBit = 4,
      triggerProbability = (\<lambda>ds. ascii ''1'')\<rparr>"

definition dialogueA :: Dialogue where
  "dialogueA = Dialogue 1 (ascii ''a'') (ascii ''${dialogue b}'') 0 None"

definition dialogueB :: Dialogue where
  "dialogueB = Dialogue 2 (ascii ''b'') (ascii ''${dialogue a}'') 0 None"

definition cycleArgv :: "Options \<Rightarrow> TeachArgv" where
  "cycleArgv opts = \<lparr>ctx = exactStore [dialogueA, dialogueB], options = opts, config = plainConfig\<rparr>"

definition optionsA :: Options where
  "optionsA = \<lparr>keyword_o = None, question_o = Some (ascii ''a''), answer_o = None, page_o = None,
                original_o = Some (ascii ''a''), pipe_o = None, recursive_o = True,
                autoMerge_o = False\<rparr>"

definition testA :: DialogueTest where
  "testA = \<lparr>question_t = Some (ascii ''a''), answer_t = None, keyword_t = None\<rparr>"

definition afterB :: Resolver where
  "afterB = \<lparr>questions = [(ascii ''a'', [dialogueA]), (ascii ''b'', [dialogueB])],
             lookups = [childTest testA (ascii ''b'')]\<rparr>"




section \<open>Vocabulary of the merge and of the outcomes\<close>

text \<open>
  The distinct elements of a list in the order of their first occurrence, and the groups
  of a list of dialogues under a key: each key once, in first-encountered order, with the
  ids of its dialogues in the order of the list.
\<close>

definition firstSeen :: "'a list \<Rightarrow> 'a list" where
  "firstSeen xs = rev (remdups (rev xs))"

definition groupIds :: "(Dialogue \<Rightarrow> jstring) \<Rightarrow> Dialogue list \<Rightarrow> (jstring \<times> nat list) list" where
  "groupIds key ds =
     map (\<lambda>k. (k, map id_d (filter (\<lambda>d. key d = k) ds))) (firstSeen (map key ds))"

text \<open>The text that line 186 takes for the key: the text of the side that is searched.\<close>

definition searchedText :: "bool \<Rightarrow> Dialogue \<Rightarrow> jstring" where
  "searchedText byQuestion d = (if byQuestion then original d else answer d)"

text \<open>
  Following the spec's words, for comparison with line 186: the key is the text of the
  side that is not searched.
\<close>

definition spec_groupKey :: "bool \<Rightarrow> Dialogue \<Rightarrow> jstring" where
  "spec_groupKey byQuestion d = (if byQuestion then answer d else original d)"

text \<open>Two lists of dialogues that differ in the redirections only.\<close>

definition sameTexts :: "Dialogue list \<Rightarrow> Dialogue list \<Rightarrow> bool" where
  "sameTexts ds ds' =
     (map id_d ds' = map id_d ds \<and> map original ds' = map original ds
      \<and> map answer ds' = map answer ds \<and> map flag ds' = map flag ds)"

text \<open>No dialogue makes the merge of lines 184 to 189 call an undefined push.\<close>

definition mergeSafe :: "TeachArgv \<Rightarrow> Dialogue list \<Rightarrow> bool" where
  "mergeSafe argv ds =
     (\<forall>d \<in> set ds. searchedText (truthy (question_o (options argv))) d \<notin> set objectPrototypeKeys)"

text \<open>
  Dialogues for a merged search by question keyword: five under one question and six
  under another, and two questions with the same answer. Options for a search that finds
  nothing in the store with the cycle, and for a search with a pipe.
\<close>

definition fiveAndSix :: "Dialogue list" where
  "fiveAndSix =
     map (\<lambda>i. Dialogue i (ascii ''q1'') (ascii ''x'') 0 None) [1, 2, 3, 4, 5]
     @ map (\<lambda>i. Dialogue i (ascii ''q2'') (ascii ''y'') 0 None) [6, 7, 8, 9, 10, 11]"

definition sameAnswer :: "Dialogue list" where
  "sameAnswer = [Dialogue 1 (ascii ''q1'') (ascii ''x'') 0 None, Dialogue 2 (ascii ''q2'') (ascii ''x'') 0 None]"

definition optionsMerge :: Options where
  "optionsMerge = \<lparr>keyword_o = Some True, question_o = Some (ascii ''q''), answer_o = None,
                    page_o = None, original_o = Some (ascii ''q''), pipe_o = None,
                    recursive_o = False, autoMerge_o = True\<rparr>"

definition mergeArgv :: "Dialogue list \<Rightarrow> TeachArgv" where
  "mergeArgv store = \<lparr>ctx = exactStore store, options = optionsMerge, config = plainConfig\<rparr>"

definition optionsMissing :: Options where
  "optionsMissing = \<lparr>keyword_o = None, question_o = Some (ascii ''z''), answer_o = None,
                      page_o = None, original_o = Some (ascii ''z''), pipe_o = None,
                      recursive_o = True, autoMerge_o = False\<rparr>"

definition optionsPipe :: Options where
  "optionsPipe = \<lparr>keyword_o = None, question_o = Some (ascii ''a''), answer_o = None,
                   page_o = None, original_o = Some (ascii ''a''), pipe_o = Some (ascii ''-r''),
                   recursive_o = False, autoMerge_o = False\<rparr>"

text \<open>
  The shapes of a query, with the message that \<open>search\<close> sends for each when nothing is
  found, and what tells the messages apart: their first eight and last three code units.
\<close>

datatype Shape =
  PipeForm | AllDialogues | ExactAnswer | ExactQuestion | ExactBoth
  | KeywordAnswer | KeywordQuestion | KeywordBoth

fun shapeMessage :: "Shape \<Rightarrow> jstring option \<Rightarrow> jstring option \<Rightarrow> jstring" where
  "shapeMessage PipeForm orig a = msgPipeEmpty"
| "shapeMessage AllDialogues orig a = msgAllEmpty"
| "shapeMessage ExactAnswer orig a = msgAnswerEmpty a"
| "shapeMessage ExactQuestion orig a = msgQuestionEmpty orig"
| "shapeMessage ExactBoth orig a = msgBothEmpty orig a"
| "shapeMessage KeywordAnswer orig a = msgAnswerKeywordEmpty a"
| "shapeMessage KeywordQuestion orig a = msgQuestionKeywordEmpty orig"
| "shapeMessage KeywordBoth orig a = msgBothKeywordEmpty orig a"

definition msgSignature :: "jstring \<Rightarrow> jstring \<times> jstring" where
  "msgSignature m = (take 8 m, take 3 (rev m))"

fun shapeSignature :: "Shape \<Rightarrow> jstring \<times> jstring" where
  "shapeSignature PipeForm =
     ([0x6CA1, 0x6709, 0x641C, 0x7D22, 0x5230, 0x4EFB, 0x4F55, 0x95EE], [0x3002, 0x7B54, 0x95EE])"
| "shapeSignature AllDialogues =
     ([0x6CA1, 0x6709, 0x641C, 0x7D22, 0x5230, 0x4EFB, 0x4F55, 0x56DE], [0x3002, 0x5883, 0x73AF])"
| "shapeSignature ExactAnswer =
     ([0x6CA1, 0x6709, 0x641C, 0x7D22, 0x5230, 0x56DE, 0x7B54, 0x201C], [0x3002, 0x914D, 0x5339])"
| "shapeSignature ExactQuestion =
     ([0x6CA1, 0x6709, 0x641C, 0x7D22, 0x5230, 0x95EE, 0x9898, 0x201C], [0x3002, 0x914D, 0x5339])"
| "shapeSignature ExactBoth =
     ([0x6CA1, 0x6709, 0x641C, 0x7D22, 0x5230, 0x95EE, 0x7B54, 0x201C], [0x3002, 0x914D, 0x5339])"
| "shapeSignature KeywordAnswer =
     ([0x6CA1, 0x6709, 0x641C, 0x7D22, 0x5230, 0x542B, 0x6709, 0x5173], [0x3002, 0x7B54, 0x56DE])"
| "shapeSignature KeywordQuestion =
     ([0x6CA1, 0x6709, 0x641C, 0x7D22, 0x5230, 0x542B, 0x6709, 0x5173], [0x3002, 0x9898, 0x95EE])"
| "shapeSignature KeywordBoth =
     ([0x6CA1, 0x6709, 0x641C, 0x7D22, 0x5230, 0x542B, 0x6709, 0x5173], [0x3002, 0x7B54, 0x95EE])"

section \<open>Properties of formatAnswer\<close>

lemma splitBreaks_plain:
  "LF \<notin> set s \<Longrightarrow> \<not> includesStr s (ascii ''$n'') \<Longrightarrow> splitBreaks cur s = [cur @ s]"
proof (induction s arbitrary: cur)
  case Nil
  then show ?case by simp
next
  case (Cons c cs)
  have "matchBreak (c # cs) = None"
    using Cons.prems
    by (cases cs) (auto simp: matchBreak_def startsWith_def)
  then show ?case using Cons by simp
qed

lemma replaceImages_plain: "\<not> hasImageMarker s \<Longrightarrow> replaceImages s = s"
  by (induction s) auto

text \<open>
  C7. A source with no line feed, no \<open>$n\<close> and no image marker, whose length does not
  exceed \<open>maxAnswerLength\<close> (100 when the option is unset), is returned as it is,
  whatever number \<open>maxAnswerLength\<close> is.
\<close>

theorem formatAnswer_identity:
  assumes "LF \<notin> set source" and "\<not> includesStr source (ascii ''$n'')"
    and "\<not> hasImageMarker source"
    and "\<not> exceeds (length source) (orDefault (maxAnswerLength cfg) (Finite 100))"
  shows "formatAnswer source cfg = source"
  using assms
  by (simp add: formatAnswer_def formatCut_def firstLine_def Let_def splitBreaks_plain
      replaceImages_plain appendEllipsis_def)

theorem formatAnswer_identity_witness:
  "LF \<notin> set (ascii ''hello'') \<and> \<not> includesStr (ascii ''hello'') (ascii ''$n'')
   \<and> \<not> hasImageMarker (ascii ''hello'')
   \<and> \<not> exceeds (length (ascii ''hello''))
         (orDefault (maxAnswerLength \<lparr>itemsPerPage = None, mergeThreshold = None,
             maxAnswerLength = None, stripQuestion = (\<lambda>q. q)\<rparr>) (Finite 100))
   \<and> formatAnswer (ascii ''hello'') \<lparr>itemsPerPage = None, mergeThreshold = None,
        maxAnswerLength = None, stripQuestion = (\<lambda>q. q)\<rparr> = ascii ''hello''"
proof -
  have a: "LF \<notin> set (ascii ''hello'')" by (simp add: ascii_def LF_def)
  have b: "\<not> includesStr (ascii ''hello'') (ascii ''$n'')"
    by (simp add: ascii_def startsWith_def)
  have c: "\<not> hasImageMarker (ascii ''hello'')"
    by (simp add: ascii_def matchImage_def startsWith_def)
  have d: "\<not> exceeds (length (ascii ''hello''))
         (orDefault (maxAnswerLength \<lparr>itemsPerPage = None, mergeThreshold = None,
             maxAnswerLength = None, stripQuestion = (\<lambda>q. q)\<rparr>) (Finite 100))"
    by (simp add: ascii_def orDefault_def exceeds_def)
  from formatAnswer_identity [OF a b c d] a b c d show ?thesis by (intro conjI)
qed

lemma endsWith_iff: "endsWith s p \<longleftrightarrow> (\<exists>t. s = t @ p)"
proof
  assume "endsWith s p"
  then have "s = take (length s - length p) s @ p"
    by (metis append_take_drop_id endsWith_def)
  then show "\<exists>t. s = t @ p" ..
next
  assume "\<exists>t. s = t @ p"
  then show "endsWith s p" by (auto simp: endsWith_def)
qed

lemma appendEllipsis_cases:
  "appendEllipsis True s =
     (if endsWith s [ellipsis, ellipsis] then s
      else if endsWith s [ellipsis] then s @ [ellipsis] else s @ [ellipsis, ellipsis])"
  by (simp add: appendEllipsis_def)

lemma appendEllipsis_ends: "endsWith (appendEllipsis True s) [ellipsis, ellipsis]"
proof (cases "endsWith s [ellipsis, ellipsis]")
  case True
  then show ?thesis by (simp add: appendEllipsis_def)
next
  case False
  show ?thesis
  proof (cases "endsWith s [ellipsis]")
    case True
    then obtain t where "s = t @ [ellipsis]" by (auto simp: endsWith_iff)
    then have "appendEllipsis True s = t @ [ellipsis, ellipsis]"
      using False True by (simp add: appendEllipsis_def)
    then show ?thesis by (auto simp: endsWith_iff)
  next
    case no: False
    then have "appendEllipsis True s = s @ [ellipsis, ellipsis]"
      using False by (simp add: appendEllipsis_def)
    then show ?thesis by (auto simp: endsWith_iff)
  qed
qed

lemma trailing_two: "endsWith s [ellipsis, ellipsis] \<longleftrightarrow> 2 \<le> trailingEllipses s"
proof
  assume "endsWith s [ellipsis, ellipsis]"
  then obtain t where "s = t @ [ellipsis, ellipsis]" by (auto simp: endsWith_iff)
  then show "2 \<le> trailingEllipses s" by (simp add: trailingEllipses_def)
next
  assume a: "2 \<le> trailingEllipses s"
  show "endsWith s [ellipsis, ellipsis]"
  proof (cases "rev s")
    case Nil
    then show ?thesis using a by (simp add: trailingEllipses_def)
  next
    case (Cons c r)
    show ?thesis
    proof (cases r)
      case Nil
      then show ?thesis using a Cons by (simp add: trailingEllipses_def split: if_splits)
    next
      case (Cons d r')
      with \<open>rev s = c # r\<close> a have "c = ellipsis" "d = ellipsis"
        by (auto simp: trailingEllipses_def split: if_splits)
      moreover have "s = rev r' @ [d, c]"
        using \<open>rev s = c # r\<close> Cons by (metis append.assoc append_Cons append_Nil rev.simps(2) rev_rev_ident)
      ultimately show ?thesis by (auto simp: endsWith_iff)
    qed
  qed
qed

lemma trailing_one: "endsWith s [ellipsis] \<longleftrightarrow> 1 \<le> trailingEllipses s"
proof
  assume "endsWith s [ellipsis]"
  then obtain t where "s = t @ [ellipsis]" by (auto simp: endsWith_iff)
  then show "1 \<le> trailingEllipses s" by (simp add: trailingEllipses_def)
next
  assume a: "1 \<le> trailingEllipses s"
  show "endsWith s [ellipsis]"
  proof (cases "rev s")
    case Nil
    then show ?thesis using a by (simp add: trailingEllipses_def)
  next
    case (Cons c r)
    with a have "c = ellipsis" by (auto simp: trailingEllipses_def split: if_splits)
    moreover have "s = rev r @ [c]" using Cons by (metis rev.simps(2) rev_rev_ident)
    ultimately show ?thesis by (auto simp: endsWith_iff)
  qed
qed

lemma trailing_snoc:
  "trailingEllipses (s @ [c]) = (if c = ellipsis then Suc (trailingEllipses s) else 0)"
  by (simp add: trailingEllipses_def)

lemma appendEllipsis_trailing:
  "trailingEllipses (appendEllipsis True s) = max 2 (trailingEllipses s)"
proof -
  consider "2 \<le> trailingEllipses s" | "trailingEllipses s = 1" | "trailingEllipses s = 0"
    by linarith
  then show ?thesis
  proof cases
    case 1
    then show ?thesis by (simp add: appendEllipsis_def trailing_two)
  next
    case 2
    then have "\<not> endsWith s [ellipsis, ellipsis]" "endsWith s [ellipsis]"
      by (simp_all add: trailing_two trailing_one)
    then show ?thesis using 2 by (simp add: appendEllipsis_def trailing_snoc)
  next
    case 3
    then have "\<not> endsWith s [ellipsis, ellipsis]" "\<not> endsWith s [ellipsis]"
      by (simp_all add: trailing_two trailing_one)
    then have "appendEllipsis True s = (s @ [ellipsis]) @ [ellipsis]"
      by (simp add: appendEllipsis_def)
    then show ?thesis using 3 by (simp only: trailing_snoc) simp
  qed
qed

lemma appendEllipsis_idem: "appendEllipsis True (appendEllipsis True s) = appendEllipsis True s"
  using appendEllipsis_ends [of s] by (simp add: appendEllipsis_def)

text \<open>
  C8, as amended. When the string was cut (\<open>formatCut\<close> returns the flag \<open>trimmed\<close> set), nothing is
  appended to a string that ends with two ellipsis characters, one ellipsis to a string
  that ends with one, and two otherwise. The result ends with the two-character marker,
  it ends with as many ellipsis characters as the cut string did, or with two if that had
  fewer, and the rule leaves the result as it is when applied again.
\<close>

theorem formatAnswer_ellipsis:
  assumes "formatCut source cfg = (True, s)"
  shows "formatAnswer source cfg =
           (if endsWith s [ellipsis, ellipsis] then s
            else if endsWith s [ellipsis] then s @ [ellipsis] else s @ [ellipsis, ellipsis])
         \<and> endsWith (formatAnswer source cfg) [ellipsis, ellipsis]
         \<and> trailingEllipses (formatAnswer source cfg) = max 2 (trailingEllipses s)
         \<and> appendEllipsis True (formatAnswer source cfg) = formatAnswer source cfg"
proof -
  have "formatAnswer source cfg = appendEllipsis True s"
    using assms by (simp add: formatAnswer_def)
  then show ?thesis
    by (simp only: appendEllipsis_cases [symmetric] appendEllipsis_ends appendEllipsis_trailing
        appendEllipsis_idem simp_thms)
qed

theorem formatAnswer_ellipsis_witness:
  "formatCut (ascii ''ab'' @ [ellipsis, ellipsis, ellipsis])
     \<lparr>itemsPerPage = None, mergeThreshold = None, maxAnswerLength = Some (Finite 3),
      stripQuestion = (\<lambda>q. q)\<rparr> = (True, ascii ''ab'' @ [ellipsis])
   \<and> formatAnswer (ascii ''ab'' @ [ellipsis, ellipsis, ellipsis])
       \<lparr>itemsPerPage = None, mergeThreshold = None, maxAnswerLength = Some (Finite 3),
        stripQuestion = (\<lambda>q. q)\<rparr> = ascii ''ab'' @ [ellipsis, ellipsis]"
proof -
  have c: "formatCut (ascii ''ab'' @ [ellipsis, ellipsis, ellipsis])
     \<lparr>itemsPerPage = None, mergeThreshold = None, maxAnswerLength = Some (Finite 3),
      stripQuestion = (\<lambda>q. q)\<rparr> = (True, ascii ''ab'' @ [ellipsis])"
    by (simp add: formatCut_def firstLine_def exceeds_def sliceTo_def toInteger_def slice_def
        sliceIndex_def orDefault_def ascii_def ellipsis_def matchBreak_def startsWith_def
        matchImage_def CR_def LF_def)
  have e: "\<not> endsWith (ascii ''ab'' @ [ellipsis]) [ellipsis, ellipsis]"
    by (simp add: endsWith_def ascii_def ellipsis_def)
  have f: "endsWith (ascii ''ab'' @ [ellipsis]) [ellipsis]"
    by (simp add: endsWith_def)
  from formatAnswer_ellipsis [OF c] c show ?thesis by (simp add: e f)
qed



lemma sliceTo_length:
  assumes "0 \<le> x" and "x < real (length xs)"
  shows "sliceTo xs (Finite x) = take (nat \<lfloor>x\<rfloor>) xs" and "length (sliceTo xs (Finite x)) = nat \<lfloor>x\<rfloor>"
proof -
  have f: "0 \<le> \<lfloor>x\<rfloor>" using assms(1) by simp
  have "real_of_int \<lfloor>x\<rfloor> \<le> x" by simp
  then have "real_of_int \<lfloor>x\<rfloor> < real (length xs)" using assms(2) by linarith
  then have "\<lfloor>x\<rfloor> < int (length xs)" by linarith
  then have lt: "nat \<lfloor>x\<rfloor> < length xs" using f by linarith
  show "sliceTo xs (Finite x) = take (nat \<lfloor>x\<rfloor>) xs"
    using assms(1) f lt by (simp add: sliceTo_def toInteger_def slice_def sliceIndex_def)
  then show "length (sliceTo xs (Finite x)) = nat \<lfloor>x\<rfloor>" using lt by simp
qed

lemma appendEllipsis_length: "length (appendEllipsis t s) \<le> length s + 2"
  by (simp add: appendEllipsis_def)

text \<open>
  C10, as amended. When \<open>maxAnswerLength\<close> (100 when unset) is neither negative nor NaN,
  the length of the result is at most \<open>maxAnswerLength + 2\<close>; and when the first line,
  with its image placeholders, is longer than a finite \<open>maxAnswerLength\<close>, the cut keeps
  its first \<open>floor(maxAnswerLength)\<close> code units, which is \<open>maxAnswerLength\<close> itself for an
  integer.
\<close>

theorem formatAnswer_length:
  assumes "nonNegative (orDefault (maxAnswerLength cfg) (Finite 100))"
  shows "atMostPlus2 (length (formatAnswer source cfg)) (orDefault (maxAnswerLength cfg) (Finite 100))
       \<and> (\<forall>x. orDefault (maxAnswerLength cfg) (Finite 100) = Finite x
               \<and> x < real (length (snd (firstLine source))) \<longrightarrow>
             snd (formatCut source cfg) = take (nat \<lfloor>x\<rfloor>) (snd (firstLine source))
             \<and> length (snd (formatCut source cfg)) = nat \<lfloor>x\<rfloor>)"
proof (cases "orDefault (maxAnswerLength cfg) (Finite 100)")
  case (Finite x)
  then have x0: "0 \<le> x" using assms by (simp add: nonNegative_def)
  obtain t l where fl: "firstLine source = (t, l)" by (cases "firstLine source")
  have cut: "x < real (length l) \<Longrightarrow> formatCut source cfg = (True, sliceTo l (Finite x))"
    by (simp add: formatCut_def Finite fl exceeds_def)
  have keep: "\<not> x < real (length l) \<Longrightarrow> formatCut source cfg = (t, l)"
    by (simp add: formatCut_def Finite fl exceeds_def)
  have bound: "real (length (formatAnswer source cfg)) \<le> x + 2"
  proof (cases "x < real (length l)")
    case True
    have "length (formatAnswer source cfg) \<le> length (sliceTo l (Finite x)) + 2"
      unfolding formatAnswer_def cut [OF True] prod.case by (rule appendEllipsis_length)
    then have "length (formatAnswer source cfg) \<le> nat \<lfloor>x\<rfloor> + 2"
      by (simp add: sliceTo_length(2) [OF x0 True])
    moreover have "real (nat \<lfloor>x\<rfloor>) \<le> x" using x0 by simp
    ultimately show ?thesis by linarith
  next
    case False
    have "length (formatAnswer source cfg) \<le> length l + 2"
      unfolding formatAnswer_def keep [OF False] prod.case by (rule appendEllipsis_length)
    then show ?thesis using False by linarith
  qed
  show ?thesis
    using bound cut sliceTo_length [OF x0]
    by (auto simp: Finite atMostPlus2_def fl)
next
  case NaN
  then show ?thesis using assms by (simp add: nonNegative_def)
next
  case Infinity
  then show ?thesis by (simp add: atMostPlus2_def)
next
  case NegInfinity
  then show ?thesis using assms by (simp add: nonNegative_def)
qed

lemma ceiling_minus_one: "\<lceil>- 1 :: real\<rceil> = - 1"
  by (simp add: ceiling_minus)

lemmas format_eval = formatAnswer_def formatCut_def firstLine_def exceeds_def sliceTo_def
  toInteger_def slice_def sliceIndex_def orDefault_def configMax_def appendEllipsis_def
  endsWith_def matchBreak_def matchImage_def startsWith_def ascii_def ellipsis_def CR_def LF_def

theorem formatAnswer_length_witness:
  "nonNegative (orDefault (maxAnswerLength (configMax (Finite 5))) (Finite 100))
   \<and> formatAnswer (ascii ''hello world'') (configMax (Finite 5)) = ascii ''hello'' @ [ellipsis, ellipsis]
   \<and> length (snd (formatCut (ascii ''hello world'') (configMax (Finite 5)))) = 5
   \<and> length (formatAnswer (ascii ''hello world'') (configMax (Finite 5))) = 7
   \<and> atMostPlus2 (length (formatAnswer (ascii ''hello world'') (configMax (Finite 5))))
        (orDefault (maxAnswerLength (configMax (Finite 5))) (Finite 100))"
proof -
  have n: "nonNegative (orDefault (maxAnswerLength (configMax (Finite 5))) (Finite 100))"
    by (simp add: nonNegative_def orDefault_def configMax_def)
  have m: "orDefault (maxAnswerLength (configMax (Finite 5))) (Finite 100) = Finite 5"
    by (simp add: orDefault_def configMax_def)
  have l: "(5::real) < real (length (snd (firstLine (ascii ''hello world''))))"
    by (simp add: format_eval)
  have v: "formatAnswer (ascii ''hello world'') (configMax (Finite 5)) = ascii ''hello'' @ [ellipsis, ellipsis]"
    by (simp add: format_eval)
  from formatAnswer_length [OF n, of "ascii ''hello world''"] m l
  have "length (snd (formatCut (ascii ''hello world'') (configMax (Finite 5)))) = 5"
    and "atMostPlus2 (length (formatAnswer (ascii ''hello world'') (configMax (Finite 5))))
        (orDefault (maxAnswerLength (configMax (Finite 5))) (Finite 100))"
    by simp_all
  moreover have "length (formatAnswer (ascii ''hello world'') (configMax (Finite 5))) = 7"
    unfolding v by (simp add: ascii_def)
  ultimately show ?thesis using n v by (intro conjI)
qed

text \<open>
  C10 as stated fails: with \<open>maxAnswerLength = -1\<close> line 50 removes the last code unit
  only, and the result has 12 code units where the bound is 1; with NaN nothing is cut and
  no length is at most NaN.
\<close>

theorem formatAnswer_length_counterexample:
  "formatAnswer (ascii ''hello world'') (configMax (Finite (- 1))) = ascii ''hello worl'' @ [ellipsis, ellipsis]
   \<and> length (formatAnswer (ascii ''hello world'') (configMax (Finite (- 1)))) = 12
   \<and> \<not> atMostPlus2 (length (formatAnswer (ascii ''hello world'') (configMax (Finite (- 1)))))
          (orDefault (maxAnswerLength (configMax (Finite (- 1)))) (Finite 100))
   \<and> formatAnswer (ascii ''hello world'') (configMax NaN) = ascii ''hello world''
   \<and> \<not> atMostPlus2 (length (formatAnswer (ascii ''hello world'') (configMax NaN)))
          (orDefault (maxAnswerLength (configMax NaN)) (Finite 100))"
  by (simp add: format_eval atMostPlus2_def ceiling_minus_one)

text \<open>
  C8 as stated fails: a first line that ends with four ellipsis characters is cut at the
  line feed and returned as it is, ending with the marker twice.
\<close>

theorem formatAnswer_ellipsis_counterexample:
  "formatCut (ascii ''a'' @ [ellipsis, ellipsis, ellipsis, ellipsis] @ [LF] @ ascii ''b'') (configMax (Finite 100))
     = (True, ascii ''a'' @ [ellipsis, ellipsis, ellipsis, ellipsis])
   \<and> formatAnswer (ascii ''a'' @ [ellipsis, ellipsis, ellipsis, ellipsis] @ [LF] @ ascii ''b'') (configMax (Finite 100))
     = ascii ''a'' @ [ellipsis, ellipsis] @ [ellipsis, ellipsis]
   \<and> trailingEllipses (formatAnswer (ascii ''a'' @ [ellipsis, ellipsis, ellipsis, ellipsis] @ [LF] @ ascii ''b'')
        (configMax (Finite 100))) = 4"
  by (simp add: format_eval trailingEllipses_def trim_def trimStart_def trimEnd_def isWhiteSpace_def)

section \<open>Properties of sendResult\<close>

lemma showNat_digit: "n < 10 \<Longrightarrow> showNat n = [of_nat (48 + n)]"
  by (simp add: showNat.simps)

text \<open>
  C5. With 45 lines and 20 items per page, page 1 is the header of page 1 of 3, the first
  20 lines and the hint, and page 3 is the header of page 3 of 3, the lines 41 to 45 and
  the hint; 20 lines with 20 items per page are sent under the plain header, with no page
  numbers and no hint. A suffix, when there is one, comes after the lines.
\<close>

theorem pagination_examples:
  assumes "length out45 = 45" and "length out20 = 20"
  shows "sendResult 20 1 title out45 suffix =
           Sent (join [LF]
             ((title @ [0xFF08, 0x7B2C, 0x20, 0x31, 0x2F, 0x33, 0x20, 0x9875, 0xFF09, 0xFF1A])
              # take 20 out45 @ (if truthy suffix then [template suffix] else []) @ [pageHint]))
       \<and> sendResult 20 3 title out45 suffix =
           Sent (join [LF]
             ((title @ [0xFF08, 0x7B2C, 0x20, 0x33, 0x2F, 0x33, 0x20, 0x9875, 0xFF09, 0xFF1A])
              # drop 40 out45 @ (if truthy suffix then [template suffix] else []) @ [pageHint]))
       \<and> sendResult 20 page title out20 suffix =
           Sent (join [LF]
             ((title @ [0xFF1A]) # out20 @ (if truthy suffix then [template suffix] else [])))"
proof -
  have h1: "pageHeader title 1 (pageCountText 45 20) =
              title @ [0xFF08, 0x7B2C, 0x20, 0x31, 0x2F, 0x33, 0x20, 0x9875, 0xFF09, 0xFF1A]"
    by (simp add: pageHeader_def pageCountText_def pageCount_def showNat_digit ascii_def)
  have h3: "pageHeader title 3 (pageCountText 45 20) =
              title @ [0xFF08, 0x7B2C, 0x20, 0x33, 0x2F, 0x33, 0x20, 0x9875, 0xFF09, 0xFF1A]"
    by (simp add: pageHeader_def pageCountText_def pageCount_def showNat_digit ascii_def)
  have b1: "pageBody 20 1 out45 = take 20 out45"
    using assms(1) by (simp add: pageBody_def slice_def sliceIndex_def)
  have b3: "pageBody 20 3 out45 = drop 40 out45"
    using assms(1) by (simp add: pageBody_def slice_def sliceIndex_def)
  have l1: "sendResultLines 20 1 title out45 suffix =
              pageHeader title 1 (pageCountText 45 20) # pageBody 20 1 out45
              @ (if truthy suffix then [template suffix] else []) @ [pageHint]"
    using assms(1) by (simp add: sendResultLines_def)
  have l3: "sendResultLines 20 3 title out45 suffix =
              pageHeader title 3 (pageCountText 45 20) # pageBody 20 3 out45
              @ (if truthy suffix then [template suffix] else []) @ [pageHint]"
    using assms(1) by (simp add: sendResultLines_def)
  have p1: "sendResult 20 1 title out45 suffix =
           Sent (join [LF]
             ((title @ [0xFF08, 0x7B2C, 0x20, 0x31, 0x2F, 0x33, 0x20, 0x9875, 0xFF09, 0xFF1A])
              # take 20 out45 @ (if truthy suffix then [template suffix] else []) @ [pageHint]))"
    unfolding sendResult_def l1 h1 b1 ..
  have p3: "sendResult 20 3 title out45 suffix =
           Sent (join [LF]
             ((title @ [0xFF08, 0x7B2C, 0x20, 0x33, 0x2F, 0x33, 0x20, 0x9875, 0xFF09, 0xFF1A])
              # drop 40 out45 @ (if truthy suffix then [template suffix] else []) @ [pageHint]))"
    unfolding sendResult_def l3 h3 b3 ..
  have p20: "sendResult 20 page title out20 suffix =
           Sent (join [LF]
             ((title @ [0xFF1A]) # out20 @ (if truthy suffix then [template suffix] else [])))"
    using assms(2) by (simp add: sendResult_def sendResultLines_def)
  from p1 p3 p20 show ?thesis by (intro conjI)
qed

theorem pagination_examples_witness:
  "length (replicate 45 (ascii ''x'')) = 45 \<and> length (replicate 20 (ascii ''y'')) = 20
   \<and> sendResult 20 3 (ascii ''t'') (replicate 45 (ascii ''x'')) None =
       Sent (join [LF] ((ascii ''t'' @ [0xFF08, 0x7B2C, 0x20, 0x33, 0x2F, 0x33, 0x20, 0x9875, 0xFF09, 0xFF1A])
              # replicate 5 (ascii ''x'') @ [pageHint]))
   \<and> sendResult 20 1 (ascii ''t'') (replicate 20 (ascii ''y'')) None =
       Sent (join [LF] ((ascii ''t'' @ [0xFF1A]) # replicate 20 (ascii ''y'')))"
proof -
  have a: "length (replicate 45 (ascii ''x'')) = 45" by simp
  have b: "length (replicate 20 (ascii ''y'')) = 20" by simp
  have t: "\<not> truthy None" by (simp add: truthy_def)
  from pagination_examples [OF a b, of "ascii ''t''" None 1] a b
  show ?thesis by (simp add: t)
qed










section \<open>Properties of the redirections\<close>

lemma hasProperty_known: "hasProperty k (questions st) \<longleftrightarrow> k \<in> knownKeys st"
  by (simp add: hasProperty_def knownKeys_def)

lemma grows_refl: "grows test st st"
  by (simp add: grows_def)

lemma grows_known: "grows test st st' \<Longrightarrow> knownKeys st \<subseteq> knownKeys st'"
  by (auto simp: grows_def knownKeys_def)

lemma grows_trans:
  assumes "grows test st st1" and "grows test st1 st2"
  shows "grows test st st2"
proof -
  from assms(1) obtain n1 where n1: "questions st1 = questions st @ n1"
      "lookups st1 = lookups st @ map (\<lambda>p. childTest test (fst p)) n1"
      "distinct (map fst n1)" "fst ` set n1 \<inter> knownKeys st = {}"
    by (auto simp: grows_def)
  from assms(2) obtain n2 where n2: "questions st2 = questions st1 @ n2"
      "lookups st2 = lookups st1 @ map (\<lambda>p. childTest test (fst p)) n2"
      "distinct (map fst n2)" "fst ` set n2 \<inter> knownKeys st1 = {}"
    by (auto simp: grows_def)
  have k1: "knownKeys st1 = knownKeys st \<union> fst ` set n1"
    using n1(1) by (auto simp: knownKeys_def)
  have "questions st2 = questions st @ (n1 @ n2)" using n1(1) n2(1) by simp
  moreover have "lookups st2 = lookups st @ map (\<lambda>p. childTest test (fst p)) (n1 @ n2)"
    using n1(2) n2(2) by simp
  moreover have "distinct (map fst (n1 @ n2))"
    using n1(3) n2(3) n2(4) k1 by auto
  moreover have "fst ` set (n1 @ n2) \<inter> knownKeys st = {}"
    using n1(4) n2(4) k1 by auto
  ultimately show ?thesis unfolding grows_def by blast
qed

lemma grows_step:
  assumes "\<not> hasProperty q (questions st)"
  shows "grows test st (st\<lparr>questions := questions st @ [(q, fetched)],
                           lookups := lookups st @ [childTest test q]\<rparr>)"
  using assms unfolding grows_def hasProperty_known
  by (intro exI [of _ "[(q, fetched)]"]) simp

lemma getRedirections_skip:
  assumes "\<not> startsWith (answer d) redirectPrefix
           \<or> hasProperty (redirectTarget (config argv) (answer d)) (questions st)"
  shows "getRedirections argv test fuel (d # rest) st =
           (case getRedirections argv test fuel rest st of
              None \<Rightarrow> None
            | Some (ds, st') \<Rightarrow> Some (d # ds, st'))"
  using assms by (auto simp: Let_def)

lemma getRedirections_fetch:
  assumes "startsWith (answer d) redirectPrefix"
    and "\<not> hasProperty (redirectTarget (config argv) (answer d)) (questions st)"
  shows "getRedirections argv test (Suc fuel) (d # rest) st =
           (let question = redirectTarget (config argv) (answer d);
                fetched = getDialogues (ctx argv) (childTest test question);
                st1 = st\<lparr>questions := questions st @ [(question, fetched)],
                         lookups := lookups st @ [childTest test question]\<rparr>
            in case getRedirections argv test fuel fetched st1 of
                 None \<Rightarrow> None
               | Some (children, st2) \<Rightarrow>
                   (case getRedirections argv test (Suc fuel) rest st2 of
                      None \<Rightarrow> None
                    | Some (ds, st3) \<Rightarrow> Some (setRedirections d children # ds, st3)))"
  using assms by (simp add: Let_def)

lemma getRedirections_no_fuel:
  assumes "startsWith (answer d) redirectPrefix"
    and "\<not> hasProperty (redirectTarget (config argv) (answer d)) (questions st)"
  shows "getRedirections argv test 0 (d # rest) st = None"
  using assms by (simp add: Let_def)

declare getRedirections.simps(2) [simp del]

lemma getRedirections_grows:
  "getRedirections argv test fuel ds st = Some (ds', st') \<Longrightarrow> grows test st st'"
proof (induction argv test fuel ds st arbitrary: ds' st' rule: getRedirections.induct)
  case (1 argv test fuel st)
  then show ?case by (simp add: grows_refl)
next
  case (2 argv test fuel d rest st)
  let ?q = "redirectTarget (config argv) (answer d)"
  show ?case
  proof (cases "\<not> startsWith (answer d) redirectPrefix \<or> hasProperty ?q (questions st)")
    case True
    then obtain r where r: "getRedirections argv test fuel rest st = Some (r, st')"
      using "2.prems" unfolding getRedirections_skip [OF True] by (auto split: option.splits)
    from True show ?thesis
    proof
      assume "\<not> startsWith (answer d) redirectPrefix"
      then show ?thesis using "2.IH"(1) r by blast
    next
      assume h: "hasProperty ?q (questions st)"
      show ?thesis
      proof (cases "startsWith (answer d) redirectPrefix")
        case True
        then show ?thesis using "2.IH"(2) [OF _ refl h] r by blast
      next
        case False
        then show ?thesis using "2.IH"(1) r by blast
      qed
    qed
  next
    case False
    then have sw: "startsWith (answer d) redirectPrefix" and nh: "\<not> hasProperty ?q (questions st)"
      by auto
    obtain f where f: "fuel = Suc f"
      using "2.prems" getRedirections_no_fuel [OF sw nh] by (cases fuel) auto
    let ?fetched = "getDialogues (ctx argv) (childTest test ?q)"
    let ?st1 = "st\<lparr>questions := questions st @ [(?q, ?fetched)],
                     lookups := lookups st @ [childTest test ?q]\<rparr>"
    from "2.prems" obtain children st2 r where
      c1: "getRedirections argv test f ?fetched ?st1 = Some (children, st2)" and
      c2: "getRedirections argv test fuel rest st2 = Some (r, st')"
      unfolding f getRedirections_fetch [OF sw nh] Let_def
      by (auto split: option.splits)
    have g0: "grows test st ?st1" using nh by (rule grows_step)
    have g1: "grows test ?st1 st2"
      using "2.IH"(3) [OF _ refl nh f refl refl c1] sw by blast
    have g2: "grows test st2 st'"
      using "2.IH"(4) [OF _ refl nh f refl refl c1 refl c2] sw by blast
    from g0 g1 g2 show ?thesis by (blast intro: grows_trans)
  qed
qed

text \<open>A result does not depend on the depth allowed, once that is enough.\<close>

lemma getRedirections_more_fuel:
  "getRedirections argv test fuel ds st = Some r \<Longrightarrow> fuel \<le> fuel' \<Longrightarrow>
   getRedirections argv test fuel' ds st = Some r"
proof (induction argv test fuel ds st arbitrary: r fuel' rule: getRedirections.induct)
  case (1 argv test fuel st)
  then show ?case by simp
next
  case (2 argv test fuel d rest st)
  let ?q = "redirectTarget (config argv) (answer d)"
  show ?case
  proof (cases "\<not> startsWith (answer d) redirectPrefix \<or> hasProperty ?q (questions st)")
    case True
    from "2.prems"(1) obtain x where x: "getRedirections argv test fuel rest st = Some x"
      unfolding getRedirections_skip [OF True] by (auto split: option.splits)
    have "getRedirections argv test fuel' rest st = Some x"
    proof (cases "startsWith (answer d) redirectPrefix")
      case sw: True
      with True have h: "hasProperty ?q (questions st)" by simp
      show ?thesis using "2.IH"(2) [OF _ refl h x "2.prems"(2)] sw by blast
    next
      case False
      then show ?thesis using "2.IH"(1) [OF False x "2.prems"(2)] by blast
    qed
    then show ?thesis
      using "2.prems"(1) x unfolding getRedirections_skip [OF True] by simp
  next
    case False
    then have sw: "startsWith (answer d) redirectPrefix" and nh: "\<not> hasProperty ?q (questions st)"
      by auto
    obtain f where f: "fuel = Suc f"
      using "2.prems"(1) getRedirections_no_fuel [OF sw nh] by (cases fuel) auto
    obtain g where g: "fuel' = Suc g" and fg: "f \<le> g"
      using "2.prems"(2) f by (cases fuel') auto
    let ?fetched = "getDialogues (ctx argv) (childTest test ?q)"
    let ?st1 = "st\<lparr>questions := questions st @ [(?q, ?fetched)],
                     lookups := lookups st @ [childTest test ?q]\<rparr>"
    from "2.prems"(1) obtain children st2 x where
      c1: "getRedirections argv test f ?fetched ?st1 = Some (children, st2)" and
      c2: "getRedirections argv test fuel rest st2 = Some x" and
      r: "r = (setRedirections d children # fst x, snd x)"
      unfolding f getRedirections_fetch [OF sw nh] Let_def
      by (auto split: option.splits)
    have d1: "getRedirections argv test g ?fetched ?st1 = Some (children, st2)"
      using "2.IH"(3) [OF _ refl nh f refl refl c1 fg] sw by blast
    have d2: "getRedirections argv test (Suc g) rest st2 = Some x"
      using "2.IH"(4) [OF _ refl nh f refl refl c1 refl c2 "2.prems"(2)] sw g by blast
    show ?thesis
      unfolding g getRedirections_fetch [OF sw nh] Let_def d1 using d2 r
      by (simp split: prod.splits)
  qed
qed

lemma redirectTargets_finite: "finite (redirectTargets cfg store)"
  by (simp add: redirectTargets_def)

lemma redirectTargets_card: "card (redirectTargets cfg store) \<le> length store"
proof -
  have "card (redirectTargets cfg store) \<le> card {d \<in> set store. startsWith (answer d) redirectPrefix}"
    unfolding redirectTargets_def by (rule card_image_le) simp
  also have "\<dots> \<le> card (set store)" by (rule card_mono) auto
  also have "\<dots> \<le> length store" by (rule card_length)
  finally show ?thesis .
qed

lemma getRedirections_enough_fuel:
  assumes store: "\<And>t. set (getDialogues (ctx argv) t) \<subseteq> set store"
  shows "set ds \<subseteq> set store \<Longrightarrow>
         card (redirectTargets (config argv) store - knownKeys st) \<le> fuel \<Longrightarrow>
         \<exists>ds' st'. getRedirections argv test fuel ds st = Some (ds', st')"
  using store
proof (induction argv test fuel ds st rule: getRedirections.induct)
  case (1 argv test fuel st)
  then show ?case by simp
next
  case (2 argv test fuel d rest st)
  let ?q = "redirectTarget (config argv) (answer d)"
  let ?T = "redirectTargets (config argv) store"
  have rest: "set rest \<subseteq> set store" using "2.prems"(1) by simp
  have st: "\<And>t. set (getDialogues (ctx argv) t) \<subseteq> set store" by (rule "2.prems"(3))
  show ?case
  proof (cases "\<not> startsWith (answer d) redirectPrefix \<or> hasProperty ?q (questions st)")
    case True
    have "\<exists>ds' st'. getRedirections argv test fuel rest st = Some (ds', st')"
    proof (cases "startsWith (answer d) redirectPrefix")
      case sw: True
      with True have h: "hasProperty ?q (questions st)" by simp
      show ?thesis using "2.IH"(2) [OF _ refl h rest "2.prems"(2) st] sw by blast
    next
      case False
      then show ?thesis using "2.IH"(1) [OF False rest "2.prems"(2) st] by blast
    qed
    then show ?thesis unfolding getRedirections_skip [OF True] by auto
  next
    case False
    then have sw: "startsWith (answer d) redirectPrefix" and nh: "\<not> hasProperty ?q (questions st)"
      by auto
    have dst: "d \<in> set store" using "2.prems"(1) by simp
    have qT: "?q \<in> ?T - knownKeys st"
      using sw nh dst by (auto simp: redirectTargets_def hasProperty_known)
    have fin: "finite (?T - knownKeys st)" by (simp add: redirectTargets_finite)
    have "0 < card (?T - knownKeys st)" using qT fin by (auto simp: card_gt_0_iff)
    then obtain f where f: "fuel = Suc f" using "2.prems"(2) by (cases fuel) auto
    let ?fetched = "getDialogues (ctx argv) (childTest test ?q)"
    let ?st1 = "st\<lparr>questions := questions st @ [(?q, ?fetched)],
                     lookups := lookups st @ [childTest test ?q]\<rparr>"
    have k1: "knownKeys ?st1 = insert ?q (knownKeys st)" by (auto simp: knownKeys_def)
    have "?T - knownKeys ?st1 = (?T - knownKeys st) - {?q}" unfolding k1 by auto
    then have "card (?T - knownKeys ?st1) = card (?T - knownKeys st) - 1"
      using qT fin by simp
    then have c1: "card (?T - knownKeys ?st1) \<le> f" using "2.prems"(2) f by simp
    have "\<exists>ds' st'. getRedirections argv test f ?fetched ?st1 = Some (ds', st')"
      using "2.IH"(3) [OF _ refl nh f refl refl st c1 st] sw by blast
    then obtain children st2 where
      r1: "getRedirections argv test f ?fetched ?st1 = Some (children, st2)" by blast
    have "knownKeys st \<subseteq> knownKeys st2"
      using grows_known [OF getRedirections_grows [OF r1]] k1 by auto
    then have "?T - knownKeys st2 \<subseteq> ?T - knownKeys st" by auto
    then have "card (?T - knownKeys st2) \<le> card (?T - knownKeys st)"
      using fin by (rule card_mono [rotated])
    then have c2: "card (?T - knownKeys st2) \<le> fuel" using "2.prems"(2) by simp
    have "\<exists>ds' st'. getRedirections argv test fuel rest st2 = Some (ds', st')"
      using "2.IH"(4) [OF _ refl nh f refl refl r1 refl rest c2 st] sw by blast
    then obtain r st3 where r2: "getRedirections argv test (Suc f) rest st2 = Some (r, st3)"
      unfolding f by blast
    show ?thesis
      unfolding f getRedirections_fetch [OF sw nh] Let_def r1 using r2 by simp
  qed
qed

text \<open>
  C1. When every lookup returns dialogues of one finite store, the resolution returns
  within a depth of calls bounded by the size of the store, cycles or not. The names
  in \<open>questions\<close> are then the root question followed by the questions looked up, in order
  and without repetition: one lookup for each question text added, none for the root
  question, and none twice.
\<close>

theorem resolve_terminates:
  assumes "\<forall>t. set (getDialogues (ctx argv) t) \<subseteq> set store"
    and "set dialogues \<subseteq> set store"
    and "length store \<le> fuel"
  shows "\<exists>ds st. resolve argv test fuel dialogues = Some (ds, st)
           \<and> map fst (questions st)
               = template (question_t test) # map (\<lambda>t. template (question_t t)) (lookups st)
           \<and> distinct (map fst (questions st))
           \<and> lookups st = map (\<lambda>p. childTest test (fst p)) (tl (questions st))"
proof -
  let ?st0 = "\<lparr>questions = [(template (question_t test), dialogues)], lookups = []\<rparr>"
  have "card (redirectTargets (config argv) store - knownKeys ?st0)
          \<le> card (redirectTargets (config argv) store)"
    by (rule card_mono) (auto simp: redirectTargets_finite)
  also have "\<dots> \<le> length store" by (rule redirectTargets_card)
  finally have "card (redirectTargets (config argv) store - knownKeys ?st0) \<le> fuel"
    using assms(3) by simp
  with assms(1,2) obtain ds st where
    r: "getRedirections argv test fuel dialogues ?st0 = Some (ds, st)"
    using getRedirections_enough_fuel [of argv store dialogues ?st0 fuel test] by blast
  from getRedirections_grows [OF r] obtain new where new:
    "questions st = [(template (question_t test), dialogues)] @ new"
    "lookups st = map (\<lambda>p. childTest test (fst p)) new"
    "distinct (map fst new)" "fst ` set new \<inter> knownKeys ?st0 = {}"
    by (auto simp: grows_def)
  have "map (\<lambda>t. template (question_t t)) (lookups st) = map fst new"
    unfolding new(2) by (simp add: childTest_def template_def comp_def)
  then have keys: "map fst (questions st)
               = template (question_t test) # map (\<lambda>t. template (question_t t)) (lookups st)"
    using new(1) by simp
  have dist: "distinct (map fst (questions st))"
    using new(1,3,4) by (auto simp: knownKeys_def)
  show ?thesis
    unfolding resolve_def
  proof (intro exI conjI)
    show "getRedirections argv test fuel dialogues ?st0 = Some (ds, st)" by (rule r)
    show "map fst (questions st)
            = template (question_t test) # map (\<lambda>t. template (question_t t)) (lookups st)"
      by (rule keys)
    show "distinct (map fst (questions st))" by (rule dist)
    show "lookups st = map (\<lambda>p. childTest test (fst p)) (tl (questions st))"
      using new(1,2) by simp
  qed
qed

lemmas eval_defs = resolve_def cycleArgv_def exactStore_def dialogueA_def dialogueB_def testA_def
  plainConfig_def getRedirections.simps(2) startsWith_def redirectPrefix_def redirectTarget_def
  slice_def sliceIndex_def trimStart_def isWhiteSpace_def hasProperty_def objectPrototypeKeys_def
  childTest_def setRedirections_def template_def ascii_def Let_def

theorem resolve_terminates_witness:
  "(\<forall>t. set (getDialogues (ctx (cycleArgv optionsA)) t) \<subseteq> set [dialogueA, dialogueB])
   \<and> set [dialogueA] \<subseteq> set [dialogueA, dialogueB]
   \<and> length [dialogueA, dialogueB] \<le> 2
   \<and> (\<exists>ds st. resolve (cycleArgv optionsA) testA 2 [dialogueA] = Some (ds, st)
         \<and> map fst (questions st)
             = template (question_t testA) # map (\<lambda>t. template (question_t t)) (lookups st)
         \<and> distinct (map fst (questions st))
         \<and> lookups st = map (\<lambda>p. childTest testA (fst p)) (tl (questions st)))"
proof -
  have a: "\<forall>t. set (getDialogues (ctx (cycleArgv optionsA)) t) \<subseteq> set [dialogueA, dialogueB]"
    by (simp add: cycleArgv_def exactStore_def)
  have b: "set [dialogueA] \<subseteq> set [dialogueA, dialogueB]" by simp
  have c: "length [dialogueA, dialogueB] \<le> 2" by simp
  from resolve_terminates [OF a b c, of testA] a b c show ?thesis by (intro conjI)
qed

text \<open>
  C3, as amended. A dialogue whose answer redirects to a question text that \<open>in\<close> finds in
  \<open>questions\<close> is passed over: it is left as it is, with no redirections attached, the
  state is unchanged, so no lookup is issued, and the resolution goes on with the next
  dialogue.
\<close>

theorem known_question_skipped:
  assumes "startsWith (answer d) redirectPrefix"
    and "hasProperty (redirectTarget (config argv) (answer d)) (questions st)"
  shows "getRedirections argv test fuel [d] st = Some ([d], st)
       \<and> getRedirections argv test fuel (d # rest) st =
           (case getRedirections argv test fuel rest st of
              None \<Rightarrow> None
            | Some (ds, st') \<Rightarrow> Some (d # ds, st'))"
  using assms by (simp add: getRedirections_skip)

lemma dialogueB_known:
  "startsWith (answer dialogueB) redirectPrefix
   \<and> hasProperty (redirectTarget (config (cycleArgv optionsA)) (answer dialogueB)) (questions afterB)"
  by (simp add: afterB_def eval_defs)

theorem known_question_skipped_witness:
  "startsWith (answer dialogueB) redirectPrefix
   \<and> hasProperty (redirectTarget (config (cycleArgv optionsA)) (answer dialogueB)) (questions afterB)
   \<and> getRedirections (cycleArgv optionsA) testA 1 [dialogueB] afterB = Some ([dialogueB], afterB)"
proof -
  have a: "startsWith (answer dialogueB) redirectPrefix"
    using dialogueB_known by blast
  have b: "hasProperty (redirectTarget (config (cycleArgv optionsA)) (answer dialogueB)) (questions afterB)"
    using dialogueB_known by blast
  from known_question_skipped [OF a b, of testA 1 "[]"] a b show ?thesis by simp
qed

text \<open>
  C3 as stated fails: the second dialogue of the cycle redirects to the question \<open>a\<close>,
  for which a list is recorded, and the resolver does not attach that list to it.
\<close>

theorem recorded_list_not_reused:
  "startsWith (answer dialogueB) redirectPrefix
   \<and> map_of (questions afterB) (redirectTarget (config (cycleArgv optionsA)) (answer dialogueB))
       = Some [dialogueA]
   \<and> getRedirections (cycleArgv optionsA) testA 1 [dialogueB] afterB
       \<noteq> Some ([setRedirections dialogueB [dialogueA]], afterB)
   \<and> getRedirections (cycleArgv optionsA) testA 1 [dialogueB] afterB = Some ([dialogueB], afterB)
   \<and> redirections dialogueB = None"
  by (simp add: afterB_def eval_defs)







section \<open>Properties of the merge\<close>

lemma firstSeen_snoc:
  "firstSeen (xs @ [x]) = (if x \<in> set xs then firstSeen xs else firstSeen xs @ [x])"
  by (simp add: firstSeen_def)

lemma firstSeen_set: "set (firstSeen xs) = set xs"
  by (simp add: firstSeen_def)

lemma firstSeen_distinct: "distinct (firstSeen xs)"
  by (simp add: firstSeen_def)

lemma update_present:
  "distinct ks \<Longrightarrow> k \<in> set ks \<Longrightarrow>
   AList.update k v (map (\<lambda>j. (j, f j)) ks) = map (\<lambda>j. (j, if j = k then v else f j)) ks"
  by (induction ks) auto

lemma update_absent:
  "k \<notin> set ks \<Longrightarrow> AList.update k v (map (\<lambda>j. (j, f j)) ks) = map (\<lambda>j. (j, f j)) ks @ [(k, v)]"
  by (induction ks) auto

lemma map_of_groupIds:
  "map_of (groupIds key ds) k =
     (if k \<in> key ` set ds then Some (map id_d (filter (\<lambda>d. key d = k) ds)) else None)"
proof -
  have "map_of (map (\<lambda>k. (k, f k)) ks) k = (if k \<in> set ks then Some (f k) else None)" for f :: "jstring \<Rightarrow> nat list" and ks
    by (induction ks) auto
  then show ?thesis by (simp add: groupIds_def firstSeen_set)
qed

lemma collectIds_snoc:
  "collectIds b (ds @ [d]) m =
     (case collectIds b ds m of Inl e \<Rightarrow> Inl e | Inr m' \<Rightarrow> collectIds b [d] m')"
  by (induction ds arbitrary: m) (auto simp: Let_def split: option.splits)

lemma groupIds_snoc:
  "groupIds key (ds @ [d]) =
     (case map_of (groupIds key ds) (key d) of
        Some ids \<Rightarrow> AList.update (key d) (ids @ [id_d d]) (groupIds key ds)
      | None \<Rightarrow> AList.update (key d) [id_d d] (groupIds key ds))"
proof (cases "key d \<in> key ` set ds")
  case True
  then have m: "map_of (groupIds key ds) (key d) = Some (map id_d (filter (\<lambda>e. key e = key d) ds))"
    by (simp add: map_of_groupIds)
  have k: "key d \<in> set (firstSeen (map key ds))" using True by (simp add: firstSeen_set)
  show ?thesis
    unfolding m option.case
    unfolding groupIds_def
    using True
    by (simp add: firstSeen_snoc update_present [OF firstSeen_distinct k] cong: map_cong)
next
  case False
  then have m: "map_of (groupIds key ds) (key d) = None"
    by (simp add: map_of_groupIds)
  have k: "key d \<notin> set (firstSeen (map key ds))" using False by (simp add: firstSeen_set)
  have "\<And>e. e \<in> set ds \<Longrightarrow> key e \<noteq> key d" using False by (metis imageI)
  then have "filter (\<lambda>e. key e = key d) ds = []" by (simp add: filter_empty_conv)
  moreover have "\<forall>j \<in> set (firstSeen (map key ds)). key d \<noteq> j" using k by auto
  ultimately show ?thesis
    unfolding m option.case
    unfolding groupIds_def
    using False
    by (simp add: firstSeen_snoc update_absent [OF k] cong: map_cong)
qed

lemma collectIds_groupIds:
  "\<forall>d \<in> set ds. searchedText b d \<notin> set objectPrototypeKeys \<Longrightarrow>
   collectIds b ds [] = Inr (groupIds (searchedText b) ds)"
proof (induction ds rule: rev_induct)
  case Nil
  then show ?case by (simp add: groupIds_def firstSeen_def)
next
  case (snoc d ds)
  then have ih: "collectIds b ds [] = Inr (groupIds (searchedText b) ds)" by simp
  have np: "searchedText b d \<notin> set objectPrototypeKeys" using snoc.prems by simp
  have key: "(if b then original d else answer d) = searchedText b d"
    by (simp add: searchedText_def)
  show ?case
    unfolding collectIds_snoc ih sum.case groupIds_snoc
    using np by (simp add: Let_def key split: option.splits)
qed

text \<open>
  C2, as amended. With merging enabled and not both a question and an answer in the
  options, and no key among the names that an object inherits, the lines are those of
  the groups of the dialogues under the text of the side that is searched (the question
  text for a search by question, the answer text otherwise), listed as \<open>Object.keys\<close>
  lists them: the key with its ids in first-encountered order when the group has at most
  \<open>mergeThreshold\<close> members (5 when unset), the key with the count otherwise.
\<close>

theorem merged_by_searched_text:
  assumes "autoMerge_o (options argv)"
    and "\<not> (truthy (question_o (options argv)) \<and> truthy (answer_o (options argv)))"
    and "\<forall>d \<in> set dialogues.
           searchedText (truthy (question_o (options argv))) d \<notin> set objectPrototypeKeys"
  shows "keywordOutput argv dialogues =
           Inr (map (\<lambda>(key, ids).
                  if length ids \<le> orDefault (mergeThreshold (config argv)) 5
                  then key @ ascii '' (#'' @ join (ascii '', #'') (map showNat ids) @ ascii '')''
                  else key @ ascii '' ('' @ [0x5171] @ ascii '' '' @ showNat (length ids)
                       @ ascii '' '' @ [0x4E2A]
                       @ (if truthy (question_o (options argv)) then answerLabel else questionLabel)
                       @ ascii '')'')
                (ownEntries (groupIds (searchedText (truthy (question_o (options argv)))) dialogues)))"
proof -
  let ?b = "truthy (question_o (options argv))"
  have "keywordOutput argv dialogues =
          mergeDialogues ?b (orDefault (mergeThreshold (config argv)) 5) dialogues"
    using assms(1,2) by (auto simp: keywordOutput_def Let_def)
  also have "\<dots> = Inr (map (\<lambda>(key, ids). mergeLine ?b (orDefault (mergeThreshold (config argv)) 5) key ids)
                        (ownEntries (groupIds (searchedText ?b) dialogues)))"
    unfolding mergeDialogues_def collectIds_groupIds [OF assms(3)] by simp
  finally show ?thesis unfolding mergeLine_def .
qed

lemmas merge_eval = mergeArgv_def optionsMerge_def plainConfig_def exactStore_def truthy_def
  searchedText_def objectPrototypeKeys_def ascii_def orDefault_def

theorem merged_by_searched_text_witness:
  "autoMerge_o (options (mergeArgv fiveAndSix))
   \<and> \<not> (truthy (question_o (options (mergeArgv fiveAndSix)))
         \<and> truthy (answer_o (options (mergeArgv fiveAndSix))))
   \<and> keywordOutput (mergeArgv fiveAndSix) fiveAndSix =
       Inr [ascii ''q1 (#1, #2, #3, #4, #5)'',
            ascii ''q2 ('' @ [0x5171] @ ascii '' 6 '' @ [0x4E2A, 0x56DE, 0x7B54] @ ascii '')'']"
proof -
  have a: "autoMerge_o (options (mergeArgv fiveAndSix))" by (simp add: merge_eval)
  have b: "\<not> (truthy (question_o (options (mergeArgv fiveAndSix)))
         \<and> truthy (answer_o (options (mergeArgv fiveAndSix))))" by (simp add: merge_eval)
  have c: "\<forall>d \<in> set fiveAndSix.
         searchedText (truthy (question_o (options (mergeArgv fiveAndSix)))) d
           \<notin> set objectPrototypeKeys"
    by (simp add: merge_eval fiveAndSix_def)
  have g: "ownEntries (groupIds (searchedText (truthy (question_o (options (mergeArgv fiveAndSix))))) fiveAndSix)
           = [(ascii ''q1'', [1, 2, 3, 4, 5]), (ascii ''q2'', [6, 7, 8, 9, 10, 11])]"
    by (simp add: merge_eval fiveAndSix_def groupIds_def firstSeen_def ownEntries_def
        isArrayIndex_def isDigit_def list_all_iff)
  have t: "orDefault (mergeThreshold (config (mergeArgv fiveAndSix))) 5 = 5"
      "truthy (question_o (options (mergeArgv fiveAndSix)))"
    by (simp_all add: merge_eval)
  from merged_by_searched_text [OF a b c] a b show ?thesis
    unfolding g by (simp add: t showNat_digit answerLabel_def ascii_def)
qed

text \<open>
  C2 as stated fails: in a search by question keyword two dialogues with different
  questions and the same answer give two lines, keyed by the questions, where grouping by
  the answer text would give one.
\<close>

theorem merge_key_counterexample:
  "keywordOutput (mergeArgv sameAnswer) sameAnswer = Inr [ascii ''q1 (#1)'', ascii ''q2 (#2)'']
   \<and> map (\<lambda>(key, ids). mergeLine True 5 key ids)
        (ownEntries (groupIds (spec_groupKey True) sameAnswer)) = [ascii ''x (#1, #2)'']"
  by (simp add: keywordOutput_def mergeDialogues_def merge_eval sameAnswer_def groupIds_def
      firstSeen_def ownEntries_def isArrayIndex_def isDigit_def list_all_iff mergeLine_def
      showNat_digit spec_groupKey_def Let_def)

text \<open>A key that names an inherited property ends the search with a TypeError.\<close>

lemma merge_inherited_name:
  "keywordOutput (mergeArgv []) [Dialogue 1 (ascii ''constructor'') (ascii ''x'') 0 None] = Inl TypeError"
  by (simp add: keywordOutput_def mergeDialogues_def merge_eval Let_def)

section \<open>Properties of search\<close>

lemma getRedirections_sameTexts:
  "getRedirections argv test fuel ds st = Some (ds', st') \<Longrightarrow> sameTexts ds ds'"
proof (induction argv test fuel ds st arbitrary: ds' st' rule: getRedirections.induct)
  case (1 argv test fuel st)
  then show ?case by (simp add: sameTexts_def)
next
  case (2 argv test fuel d rest st)
  let ?q = "redirectTarget (config argv) (answer d)"
  show ?case
  proof (cases "\<not> startsWith (answer d) redirectPrefix \<or> hasProperty ?q (questions st)")
    case True
    then obtain r where r: "getRedirections argv test fuel rest st = Some (r, st')" and ds': "ds' = d # r"
      using "2.prems" unfolding getRedirections_skip [OF True] by (auto split: option.splits)
    have "sameTexts rest r"
    proof (cases "startsWith (answer d) redirectPrefix")
      case sw: True
      with True have h: "hasProperty ?q (questions st)" by simp
      show ?thesis using "2.IH"(2) [OF _ refl h r] sw by blast
    next
      case False
      then show ?thesis using "2.IH"(1) [OF False r] by blast
    qed
    then show ?thesis using ds' by (simp add: sameTexts_def)
  next
    case False
    then have sw: "startsWith (answer d) redirectPrefix" and nh: "\<not> hasProperty ?q (questions st)"
      by auto
    obtain f where f: "fuel = Suc f"
      using "2.prems" getRedirections_no_fuel [OF sw nh] by (cases fuel) auto
    let ?fetched = "getDialogues (ctx argv) (childTest test ?q)"
    let ?st1 = "st\<lparr>questions := questions st @ [(?q, ?fetched)],
                     lookups := lookups st @ [childTest test ?q]\<rparr>"
    from "2.prems" obtain children st2 r where
      c1: "getRedirections argv test f ?fetched ?st1 = Some (children, st2)" and
      c2: "getRedirections argv test fuel rest st2 = Some (r, st')" and
      ds': "ds' = setRedirections d children # r"
      unfolding f getRedirections_fetch [OF sw nh] Let_def
      by (auto split: option.splits)
    have "sameTexts rest r"
      using "2.IH"(4) [OF _ refl nh f refl refl c1 refl c2] sw by blast
    then show ?thesis using ds' by (simp add: sameTexts_def setRedirections_def)
  qed
qed

lemma ownEntries_length: "length (ownEntries m) = length m"
  by (simp add: ownEntries_def sum_length_filter_compl)

lemma groupIds_nonempty: "ds \<noteq> [] \<Longrightarrow> groupIds key ds \<noteq> []"
proof -
  assume "ds \<noteq> []"
  then have "set (firstSeen (map key ds)) \<noteq> {}" by (simp add: firstSeen_set)
  then show ?thesis by (auto simp: groupIds_def)
qed

lemma formatAnswers_length: "length (formatAnswers argv ds p) = length ds"
  by (induction ds) simp_all

lemma keywordOutput_nonempty:
  assumes "ds \<noteq> []"
    and "\<not> autoMerge_o (options argv) \<or> (truthy (question_o (options argv)) \<and> truthy (answer_o (options argv)))
         \<or> mergeSafe argv ds"
  shows "\<exists>output. keywordOutput argv ds = Inr output \<and> output \<noteq> []"
proof (cases "\<not> autoMerge_o (options argv) \<or> (truthy (question_o (options argv)) \<and> truthy (answer_o (options argv)))")
  case True
  then have "keywordOutput argv ds = Inr (formatQuestionAnswers argv ds)"
    by (auto simp: keywordOutput_def Let_def)
  moreover have "formatQuestionAnswers argv ds \<noteq> []"
    using assms(1) by (simp add: formatQuestionAnswers_def)
  ultimately show ?thesis by blast
next
  case False
  then have safe: "\<forall>d \<in> set ds. searchedText (truthy (question_o (options argv))) d \<notin> set objectPrototypeKeys"
    using assms(2) by (auto simp: mergeSafe_def)
  let ?b = "truthy (question_o (options argv))"
  have "keywordOutput argv ds = mergeDialogues ?b (orDefault (mergeThreshold (config argv)) 5) ds"
    using False by (auto simp: keywordOutput_def Let_def)
  also have "\<dots> = Inr (map (\<lambda>(key, ids). mergeLine ?b (orDefault (mergeThreshold (config argv)) 5) key ids)
                        (ownEntries (groupIds (searchedText ?b) ds)))"
    unfolding mergeDialogues_def collectIds_groupIds [OF safe] by simp
  finally have "keywordOutput argv ds = Inr (map (\<lambda>(key, ids). mergeLine ?b (orDefault (mergeThreshold (config argv)) 5) key ids)
                        (ownEntries (groupIds (searchedText ?b) ds)))" .
  moreover have "length (ownEntries (groupIds (searchedText ?b) ds)) \<noteq> 0"
    using groupIds_nonempty [OF assms(1)] by (simp add: ownEntries_length)
  ultimately show ?thesis by auto
qed

lemma keywordOutput_Nil: "keywordOutput argv [] = Inr []"
  by (simp add: keywordOutput_def mergeDialogues_def formatQuestionAnswers_def ownEntries_def Let_def)

lemma respond_empty:
  "respond argv [] =
     Inr (Sent
       (if \<not> truthy (question_o (options argv)) \<and> \<not> truthy (answer_o (options argv))
        then msgAllEmpty
        else if keyword_o (options argv) \<noteq> Some True then
          (if \<not> truthy (question_o (options argv)) then msgAnswerEmpty (answer_o (options argv))
           else if \<not> truthy (answer_o (options argv)) then msgQuestionEmpty (original_o (options argv))
           else msgBothEmpty (original_o (options argv)) (answer_o (options argv)))
        else
          (if \<not> truthy (question_o (options argv)) then msgAnswerKeywordEmpty (answer_o (options argv))
           else if \<not> truthy (answer_o (options argv))
           then msgQuestionKeywordEmpty (original_o (options argv))
           else msgBothKeywordEmpty (original_o (options argv)) (answer_o (options argv)))))"
  by (simp add: respond_def keywordOutput_Nil Let_def)

lemma respond_nonempty:
  assumes "ds \<noteq> []"
    and "keyword_o (options argv) = Some True \<and> autoMerge_o (options argv)
         \<and> \<not> (truthy (question_o (options argv)) \<and> truthy (answer_o (options argv)))
         \<longrightarrow> mergeSafe argv ds"
  shows "\<exists>title output suffix. output \<noteq> [] \<and>
           respond argv ds =
             Inr (sendResult (orDefault (itemsPerPage (config argv)) 20)
                    (orDefault (page_o (options argv)) 1) title output suffix)"
proof (cases "keyword_o (options argv) = Some True
              \<and> (truthy (question_o (options argv)) \<or> truthy (answer_o (options argv)))")
  case True
  then have "\<not> autoMerge_o (options argv)
         \<or> (truthy (question_o (options argv)) \<and> truthy (answer_o (options argv)))
         \<or> mergeSafe argv ds"
    using assms(2) by blast
  from keywordOutput_nonempty [OF assms(1) this] obtain out where
    o: "keywordOutput argv ds = Inr out" "out \<noteq> []" by blast
  show ?thesis
    using True assms(1) o(2) unfolding respond_def Let_def o(1) sum.case
    by (auto intro!: exI [of _ out])
next
  case False
  have n: "formatQuestionAnswers argv ds \<noteq> []" "formatAnswers argv ds 0 \<noteq> []"
      "map (\<lambda>d. formatPrefix argv d False @ original d) ds \<noteq> []"
    using assms(1) formatAnswers_length [of argv ds 0]
    by (auto simp: formatQuestionAnswers_def)
  show ?thesis
  proof (cases "\<not> truthy (question_o (options argv)) \<and> \<not> truthy (answer_o (options argv))")
    case True
    then have "respond argv ds = Inr (sendResult (orDefault (itemsPerPage (config argv)) 20)
                    (orDefault (page_o (options argv)) 1) titleAll (formatQuestionAnswers argv ds) None)"
      using assms(1) by (simp add: respond_def Let_def)
    then show ?thesis using n(1) by blast
  next
    case nall: False
    with False have k: "keyword_o (options argv) \<noteq> Some True" by blast
    show ?thesis
    proof (cases "truthy (question_o (options argv))")
      case q: False
      then have "respond argv ds = Inr (sendResult (orDefault (itemsPerPage (config argv)) 20)
                    (orDefault (page_o (options argv)) 1) (titleAnswer (answer_o (options argv)))
                    (map (\<lambda>d. formatPrefix argv d False @ original d) ds) None)"
        using assms(1) nall k by (simp add: respond_def Let_def)
      then show ?thesis using n(3) by blast
    next
      case q: True
      show ?thesis
      proof (cases "truthy (answer_o (options argv))")
        case False
        then have "respond argv ds = Inr (sendResult (orDefault (itemsPerPage (config argv)) 20)
                    (orDefault (page_o (options argv)) 1) (titleQuestion (original_o (options argv)))
                    (formatAnswers argv ds 0)
                    (Some (if length ds > 1
                           then probabilityLabel @ triggerProbability (ctx argv) ds else [])))"
          using assms(1) nall k q by (simp add: respond_def Let_def)
        then show ?thesis using n(2) by blast
      next
        case True
        then have "respond argv ds = Inr (sendResult (orDefault (itemsPerPage (config argv)) 20)
                    (orDefault (page_o (options argv)) 1)
                    (titleBoth (original_o (options argv)) (answer_o (options argv)))
                    [join (ascii '', '') (map (\<lambda>d. showNat (id_d d)) ds)] None)"
          using assms(1) nall k q by (simp add: respond_def Let_def)
        then show ?thesis by blast
      qed
    qed
  qed
qed

lemma mergeSafe_sameTexts: "sameTexts ds ds' \<Longrightarrow> mergeSafe argv ds' = mergeSafe argv ds"
proof -
  assume s: "sameTexts ds ds'"
  let ?b = "truthy (question_o (options argv))"
  have "map (searchedText ?b) ds' = map (searchedText ?b) ds"
  proof (cases ?b)
    case True
    then have "searchedText ?b = original" by (auto simp: searchedText_def)
    then show ?thesis using s by (simp add: sameTexts_def)
  next
    case False
    then have "searchedText ?b = answer" by (auto simp: searchedText_def)
    then show ?thesis using s by (simp add: sameTexts_def)
  qed
  then have "searchedText ?b ` set ds' = searchedText ?b ` set ds"
    by (metis set_map)
  moreover have "mergeSafe argv xs = (searchedText ?b ` set xs \<inter> set objectPrototypeKeys = {})" for xs
    unfolding mergeSafe_def by blast
  ultimately show ?thesis by simp
qed

lemma resolve_Nil: "resolve argv test fuel [] = Some ([], \<lparr>questions = [(template (question_t test), [])], lookups = []\<rparr>)"
  by (simp add: resolve_def)

lemma resolve_returns:
  assumes "\<forall>t. set (getDialogues (ctx argv) t) \<subseteq> set store"
    and "set dialogues \<subseteq> set store"
    and "length store \<le> fuel"
  shows "\<exists>ds st. resolve argv test fuel dialogues = Some (ds, st)"
proof -
  let ?st0 = "\<lparr>questions = [(template (question_t test), dialogues)], lookups = []\<rparr>"
  have "card (redirectTargets (config argv) store - knownKeys ?st0)
          \<le> card (redirectTargets (config argv) store)"
    by (rule card_mono) (auto simp: redirectTargets_finite)
  also have "\<dots> \<le> length store" by (rule redirectTargets_card)
  finally have "card (redirectTargets (config argv) store - knownKeys ?st0) \<le> fuel"
    using assms(3) by simp
  with assms(1,2) show ?thesis
    unfolding resolve_def
    using getRedirections_enough_fuel [of argv store dialogues ?st0 fuel test] by blast
qed

text \<open>
  C9, as amended. Once no listener has bailed out: when the lookup finds nothing, what is
  sent is the no-results message of the shape of the query, the pipe form first; when it
  finds dialogues and there is a pipe, the piped command is executed on their ids and
  nothing is listed; when it finds dialogues and there is no pipe, what is sent is a
  titled listing made from at least one line, provided the resolution returns (a finite
  store and enough depth, when \<open>--recursive\<close> is set) and the merge meets no inherited
  name.
\<close>

theorem search_outcomes:
  assumes "\<not> searchBail (ctx argv) (searchTest argv)"
  shows "(getDialogues (ctx argv) (searchTest argv) = [] \<longrightarrow>
           search fuel argv = Some (Inr (Sent
             (if truthy (pipe_o (options argv)) then msgPipeEmpty
              else if \<not> truthy (question_o (options argv)) \<and> \<not> truthy (answer_o (options argv))
              then msgAllEmpty
              else if keyword_o (options argv) \<noteq> Some True then
                (if \<not> truthy (question_o (options argv))
                 then msgAnswerEmpty (answer_o (options argv))
                 else if \<not> truthy (answer_o (options argv))
                 then msgQuestionEmpty (original_o (options argv))
                 else msgBothEmpty (original_o (options argv)) (answer_o (options argv)))
              else
                (if \<not> truthy (question_o (options argv))
                 then msgAnswerKeywordEmpty (answer_o (options argv))
                 else if \<not> truthy (answer_o (options argv))
                 then msgQuestionKeywordEmpty (original_o (options argv))
                 else msgBothKeywordEmpty (original_o (options argv)) (answer_o (options argv)))))))
       \<and> (getDialogues (ctx argv) (searchTest argv) \<noteq> [] \<and> truthy (pipe_o (options argv)) \<longrightarrow>
           search fuel argv = Some (Inr (Executed (template (pipe_o (options argv)))
             (join (ascii '','')
                (map (\<lambda>d. showNat (id_d d)) (getDialogues (ctx argv) (searchTest argv)))))))
       \<and> (getDialogues (ctx argv) (searchTest argv) \<noteq> [] \<and> \<not> truthy (pipe_o (options argv))
           \<and> (recursive_o (options argv) \<longrightarrow>
                (\<forall>t. set (getDialogues (ctx argv) t) \<subseteq> set store) \<and> length store \<le> fuel)
           \<and> (keyword_o (options argv) = Some True \<and> autoMerge_o (options argv)
                \<and> \<not> (truthy (question_o (options argv)) \<and> truthy (answer_o (options argv)))
                \<longrightarrow> mergeSafe argv (getDialogues (ctx argv) (searchTest argv)))
           \<longrightarrow> (\<exists>title out suffix. out \<noteq> [] \<and>
                 search fuel argv =
                   Some (Inr (sendResult (orDefault (itemsPerPage (config argv)) 20)
                                (orDefault (page_o (options argv)) 1) title out suffix))))"
proof (intro conjI impI)
  assume e: "getDialogues (ctx argv) (searchTest argv) = []"
  show "search fuel argv = Some (Inr (Sent
             (if truthy (pipe_o (options argv)) then msgPipeEmpty
              else if \<not> truthy (question_o (options argv)) \<and> \<not> truthy (answer_o (options argv))
              then msgAllEmpty
              else if keyword_o (options argv) \<noteq> Some True then
                (if \<not> truthy (question_o (options argv))
                 then msgAnswerEmpty (answer_o (options argv))
                 else if \<not> truthy (answer_o (options argv))
                 then msgQuestionEmpty (original_o (options argv))
                 else msgBothEmpty (original_o (options argv)) (answer_o (options argv)))
              else
                (if \<not> truthy (question_o (options argv))
                 then msgAnswerKeywordEmpty (answer_o (options argv))
                 else if \<not> truthy (answer_o (options argv))
                 then msgQuestionKeywordEmpty (original_o (options argv))
                 else msgBothKeywordEmpty (original_o (options argv)) (answer_o (options argv))))))"
  proof (cases "truthy (pipe_o (options argv))")
    case True
    then show ?thesis using assms e by (simp add: search_def Let_def)
  next
    case False
    have "search fuel argv = Some (respond argv [])"
      using assms e False by (simp add: search_def Let_def resolve_Nil)
    then show ?thesis using False by (simp only: respond_empty if_False)
  qed
next
  assume "getDialogues (ctx argv) (searchTest argv) \<noteq> [] \<and> truthy (pipe_o (options argv))"
  then show "search fuel argv = Some (Inr (Executed (template (pipe_o (options argv)))
             (join (ascii '','')
                (map (\<lambda>d. showNat (id_d d)) (getDialogues (ctx argv) (searchTest argv))))))"
    using assms by (simp add: search_def Let_def)
next
  let ?ds = "getDialogues (ctx argv) (searchTest argv)"
  assume a: "?ds \<noteq> [] \<and> \<not> truthy (pipe_o (options argv))
           \<and> (recursive_o (options argv) \<longrightarrow>
                (\<forall>t. set (getDialogues (ctx argv) t) \<subseteq> set store) \<and> length store \<le> fuel)
           \<and> (keyword_o (options argv) = Some True \<and> autoMerge_o (options argv)
                \<and> \<not> (truthy (question_o (options argv)) \<and> truthy (answer_o (options argv)))
                \<longrightarrow> mergeSafe argv ?ds)"
  then have ne: "?ds \<noteq> []" and np: "\<not> truthy (pipe_o (options argv))"
    and safe: "keyword_o (options argv) = Some True \<and> autoMerge_o (options argv)
                \<and> \<not> (truthy (question_o (options argv)) \<and> truthy (answer_o (options argv)))
                \<longrightarrow> mergeSafe argv ?ds"
    by blast+
  show "\<exists>title out suffix. out \<noteq> [] \<and>
                 search fuel argv =
                   Some (Inr (sendResult (orDefault (itemsPerPage (config argv)) 20)
                                (orDefault (page_o (options argv)) 1) title out suffix))"
  proof (cases "recursive_o (options argv)")
    case False
    then have "search fuel argv = Some (respond argv ?ds)"
      using assms np by (simp add: search_def Let_def)
    then show ?thesis using respond_nonempty [OF ne safe] by auto
  next
    case True
    with a have st: "\<forall>t. set (getDialogues (ctx argv) t) \<subseteq> set store" and fu: "length store \<le> fuel"
      by blast+
    have "set ?ds \<subseteq> set store" using st by blast
    from resolve_returns [OF st this fu] obtain resolved rs where
      r: "resolve argv (searchTest argv) fuel ?ds = Some (resolved, rs)" by blast
    then have same: "sameTexts ?ds resolved"
      unfolding resolve_def by (rule getRedirections_sameTexts)
    then have "length resolved = length ?ds"
      unfolding sameTexts_def by (metis length_map)
    then have ne': "resolved \<noteq> []" using ne by auto
    have safe': "keyword_o (options argv) = Some True \<and> autoMerge_o (options argv)
                \<and> \<not> (truthy (question_o (options argv)) \<and> truthy (answer_o (options argv)))
                \<longrightarrow> mergeSafe argv resolved"
      using safe mergeSafe_sameTexts [OF same] by simp
    have "search fuel argv = Some (respond argv resolved)"
      using assms np True r by (simp add: search_def Let_def)
    then show ?thesis using respond_nonempty [OF ne' safe'] by auto
  qed
qed

lemmas search_eval = searchTest_def optionsA_def optionsMissing_def optionsPipe_def truthy_def
  orDefault_def

lemma found_cycle:
  "getDialogues (ctx (cycleArgv optionsA)) (searchTest (cycleArgv optionsA)) = [dialogueA]"
  "getDialogues (ctx (cycleArgv optionsPipe)) (searchTest (cycleArgv optionsPipe)) = [dialogueA]"
  "getDialogues (ctx (cycleArgv optionsMissing)) (searchTest (cycleArgv optionsMissing)) = []"
  by (simp_all add: search_eval eval_defs)

text \<open>
  C9 as stated fails for the pipe form: a search with a pipe that finds a dialogue sends
  no listing, it executes the piped command.
\<close>

theorem pipe_executes_counterexample:
  "getDialogues (ctx (cycleArgv optionsPipe)) (searchTest (cycleArgv optionsPipe)) = [dialogueA]
   \<and> search 0 (cycleArgv optionsPipe) = Some (Inr (Executed (ascii ''-r'') (ascii ''1'')))"
  by (simp add: search_def search_eval eval_defs showNat_digit)

theorem search_outcomes_witness:
  "\<not> searchBail (ctx (cycleArgv optionsA)) (searchTest (cycleArgv optionsA))
   \<and> (\<forall>t. set (getDialogues (ctx (cycleArgv optionsA)) t) \<subseteq> set [dialogueA, dialogueB])
   \<and> search 2 (cycleArgv optionsMissing) = Some (Inr (Sent (msgQuestionEmpty (Some (ascii ''z'')))))
   \<and> search 2 (cycleArgv optionsPipe) = Some (Inr (Executed (ascii ''-r'') (ascii ''1'')))
   \<and> (\<exists>title out suffix. out \<noteq> [] \<and>
         search 2 (cycleArgv optionsA) = Some (Inr (sendResult 20 1 title out suffix)))"
proof -
  have b: "\<not> searchBail (ctx (cycleArgv opts)) (searchTest (cycleArgv opts))" for opts
    by (simp add: cycleArgv_def exactStore_def)
  have st: "\<forall>t. set (getDialogues (ctx (cycleArgv optionsA)) t) \<subseteq> set [dialogueA, dialogueB]"
    by (simp add: cycleArgv_def exactStore_def)
  have shape: "\<not> truthy (pipe_o (options (cycleArgv optionsMissing)))"
      "truthy (question_o (options (cycleArgv optionsMissing)))"
      "\<not> truthy (answer_o (options (cycleArgv optionsMissing)))"
      "keyword_o (options (cycleArgv optionsMissing)) \<noteq> Some True"
      "original_o (options (cycleArgv optionsMissing)) = Some (ascii ''z'')"
      "truthy (pipe_o (options (cycleArgv optionsPipe)))"
      "template (pipe_o (options (cycleArgv optionsPipe))) = ascii ''-r''"
      "\<not> truthy (pipe_o (options (cycleArgv optionsA)))"
      "recursive_o (options (cycleArgv optionsA))"
      "keyword_o (options (cycleArgv optionsA)) \<noteq> Some True"
      "orDefault (itemsPerPage (config (cycleArgv optionsA))) 20 = 20"
      "orDefault (page_o (options (cycleArgv optionsA))) (Suc 0) = Suc 0"
    by (simp_all add: cycleArgv_def search_eval plainConfig_def template_def ascii_def)
  have ids: "showNat (id_d dialogueA) = ascii ''1''"
    by (simp add: dialogueA_def showNat_digit ascii_def)
  have missing: "search 2 (cycleArgv optionsMissing) = Some (Inr (Sent (msgQuestionEmpty (Some (ascii ''z'')))))"
    using search_outcomes [OF b [of optionsMissing], of 2] found_cycle(3)
    by (simp add: shape)
  have piped: "search 2 (cycleArgv optionsPipe) = Some (Inr (Executed (ascii ''-r'') (ascii ''1'')))"
    using search_outcomes [OF b [of optionsPipe], of 2]
    by (simp add: found_cycle(2) shape ids)
  have listed: "\<exists>title out suffix. out \<noteq> [] \<and>
         search 2 (cycleArgv optionsA) = Some (Inr (sendResult 20 1 title out suffix))"
    using search_outcomes [OF b [of optionsA], of 2 "[dialogueA, dialogueB]"] st
    by (simp add: found_cycle(1) shape)
  from b [of optionsA] st missing piped listed show ?thesis by (intro conjI)
qed

text \<open>The search for the question \<open>a\<close> in the store with the cycle, resolved.\<close>

lemma search_cycle:
  "search 2 (cycleArgv optionsA) =
     Some (Inr (Sent
       ([0x95EE, 0x9898, 0x201C] @ ascii ''a'' @ [0x201D, 0x7684, 0x56DE, 0x7B54, 0x5982, 0x4E0B, 0xFF1A]
        @ [LF] @ ascii ''1. ${dialogue b}''
        @ [LF] @ ascii ''=> 2. ${dialogue a}'')))"
  by (simp add: search_def respond_def sendResult_def sendResultLines_def search_eval eval_defs
      titleQuestion_def formatPrefix_def getDetails_def formatDetails_def formatAnswer_def
      formatCut_def firstLine_def exceeds_def appendEllipsis_def matchBreak_def matchImage_def
      showNat_digit LF_def CR_def)

text \<open>The messages of two different shapes differ, whatever texts they quote.\<close>

lemma msgSignature_shape: "msgSignature (shapeMessage s orig a) = shapeSignature s"
  by (cases s)
     (simp_all add: msgSignature_def msgPipeEmpty_def msgAllEmpty_def msgAnswerEmpty_def
        msgQuestionEmpty_def msgBothEmpty_def msgAnswerKeywordEmpty_def
        msgQuestionKeywordEmpty_def msgBothKeywordEmpty_def)

lemma shapeSignature_inj: "shapeSignature s = shapeSignature s' \<Longrightarrow> s = s'"
  by (cases s; cases s'; simp)

lemma shapeMessage_inj:
  "shapeMessage s orig a = shapeMessage s' orig' a' \<Longrightarrow> s = s'"
  by (metis msgSignature_shape shapeSignature_inj)

end
